theory Spec2Isabelle
  imports Main
begin

section \<open>JavaScript strings\<close>

text \<open>
  A JavaScript string is a sequence of UTF-16 code units. A code unit is modelled by its
  numeric value, so that the characters outside ASCII that the source mentions (the bullet
  U+2022, the Unicode white space that \<^verbatim>\<open>trim\<close> and \<^verbatim>\<open>\s\<close> know) are ordinary
  values. \<open>js\<close> turns an ASCII literal into such a string.
\<close>

type_synonym jschar = nat
type_synonym jsstring = "jschar list"

definition js :: "string \<Rightarrow> jsstring" where
  "js s = map of_char s"

text \<open>
  ECMAScript WhiteSpace and LineTerminator: the code units that \<^verbatim>\<open>trim\<close>, \<^verbatim>\<open>trimEnd\<close>
  strip and that \<^verbatim>\<open>\s\<close> matches (TAB, LF, VT, FF, CR, SP, NBSP, U+1680, U+2000..U+200A,
  U+2028, U+2029, U+202F, U+205F, U+3000, U+FEFF).
\<close>

definition is_space :: "jschar \<Rightarrow> bool" where
  "is_space c \<longleftrightarrow>
     c = 9 \<or> c = 10 \<or> c = 11 \<or> c = 12 \<or> c = 13 \<or> c = 32 \<or> c = 160 \<or> c = 5760 \<or>
     (8192 \<le> c \<and> c \<le> 8202) \<or> c = 8232 \<or> c = 8233 \<or> c = 8239 \<or> c = 8287 \<or>
     c = 12288 \<or> c = 65279"

text \<open>The regular expression atom \<^verbatim>\<open>.\<close> matches every code unit but a line terminator.\<close>

definition is_line_terminator :: "jschar \<Rightarrow> bool" where
  "is_line_terminator c \<longleftrightarrow> c = 10 \<or> c = 13 \<or> c = 8232 \<or> c = 8233"

definition is_dot :: "jschar \<Rightarrow> bool" where
  "is_dot c \<longleftrightarrow> \<not> is_line_terminator c"

text \<open>\<^verbatim>\<open>\d\<close>: the ten ASCII digits.\<close>

definition is_digit :: "jschar \<Rightarrow> bool" where
  "is_digit c \<longleftrightarrow> 48 \<le> c \<and> c \<le> 57"

definition trimStart :: "jsstring \<Rightarrow> jsstring" where
  "trimStart s = dropWhile is_space s"

definition trimEnd :: "jsstring \<Rightarrow> jsstring" where
  "trimEnd s = rev (dropWhile is_space (rev s))"

definition trim :: "jsstring \<Rightarrow> jsstring" where
  "trim s = trimEnd (trimStart s)"

text \<open>\<^verbatim>\<open>s.split(sep)\<close> for a separator of one code unit: never empty, \<^verbatim>\<open>''.split(sep)\<close> is \<^verbatim>\<open>['']\<close>.\<close>

fun split_on :: "jschar \<Rightarrow> jsstring \<Rightarrow> jsstring list" where
  "split_on sep [] = [[]]"
| "split_on sep (c # cs) =
     (if c = sep then [] # split_on sep cs
      else (case split_on sep cs of
              [] \<Rightarrow> [[c]]
            | p # ps \<Rightarrow> (c # p) # ps))"

text \<open>\<^verbatim>\<open>xs.join(sep)\<close>.\<close>

fun join :: "jsstring \<Rightarrow> jsstring list \<Rightarrow> jsstring" where
  "join sep [] = []"
| "join sep [x] = x"
| "join sep (x # y # ys) = x @ sep @ join sep (y # ys)"

text \<open>\<^verbatim>\<open>s.startsWith(p)\<close> and \<^verbatim>\<open>s.includes(p)\<close>.\<close>

definition startsWith :: "jsstring \<Rightarrow> jsstring \<Rightarrow> bool" where
  "startsWith s p \<longleftrightarrow> take (length p) s = p"

fun includes_js :: "jsstring \<Rightarrow> jsstring \<Rightarrow> bool" where
  "includes_js [] p \<longleftrightarrow> p = []"
| "includes_js (c # cs) p \<longleftrightarrow> startsWith (c # cs) p \<or> includes_js cs p"

text \<open>\<^verbatim>\<open>s.indexOf(c)\<close> for one code unit: the first position, or -1.\<close>

definition indexOf :: "jsstring \<Rightarrow> jschar \<Rightarrow> int" where
  "indexOf s c = (if c \<in> set s then int (length (takeWhile (\<lambda>x. x \<noteq> c) s)) else - 1)"

section \<open>Regular expressions\<close>

text \<open>
  The regular expressions of the source, as syntax trees, with the backtracking semantics
  of ECMAScript: \<open>rx_run r s\<close> lists every way \<open>r\<close> matches a prefix of \<open>s\<close>, in the
  order in which the backtracking matcher tries them (greedy quantifiers first the longest
  match, alternatives left to right), each with the captures of the groups of \<open>r\<close> (in the
  order of their opening parentheses, \<open>None\<close> for a group that did not take part) and the
  rest of the input. The first entry is the match that \<^verbatim>\<open>exec\<close> reports.
  Quantifiers \<^verbatim>\<open>*\<close> and \<^verbatim>\<open>+\<close> occur in the source on character classes only.
  The flag \<^verbatim>\<open>i\<close> (without \<^verbatim>\<open>u\<close>) compares after mapping to upper case, where a code unit
  from 128 on is never mapped into ASCII: for a pattern of ASCII letters this is the
  comparison of the ASCII lower-case forms.
\<close>

datatype rx =
    Cls "jschar \<Rightarrow> bool"
  | Lit jsstring
  | LitI jsstring
  | Seq rx rx
  | Alt rx rx
  | Opt rx
  | Star "jschar \<Rightarrow> bool"
  | Plus "jschar \<Rightarrow> bool"
  | Grp rx
  | Eoi
  | Eps

definition ascii_lower :: "jschar \<Rightarrow> jschar" where
  "ascii_lower c = (if 65 \<le> c \<and> c \<le> 90 then c + 32 else c)"

fun ngroups :: "rx \<Rightarrow> nat" where
  "ngroups (Seq a b) = ngroups a + ngroups b"
| "ngroups (Alt a b) = ngroups a + ngroups b"
| "ngroups (Opt a) = ngroups a"
| "ngroups (Grp a) = Suc (ngroups a)"
| "ngroups _ = 0"

text \<open>The rests after \<^verbatim>\<open>c*\<close>: the longest run first, then one code unit less, down to none.\<close>

fun star_rems :: "(jschar \<Rightarrow> bool) \<Rightarrow> jsstring \<Rightarrow> jsstring list" where
  "star_rems P [] = [[]]"
| "star_rems P (c # cs) = (if P c then star_rems P cs @ [c # cs] else [c # cs])"

type_synonym rx_result = "jsstring option list \<times> jsstring"

fun rx_run :: "rx \<Rightarrow> jsstring \<Rightarrow> rx_result list" where
  "rx_run (Cls P) s = (case s of [] \<Rightarrow> [] | c # cs \<Rightarrow> if P c then [([], cs)] else [])"
| "rx_run (Lit p) s = (if take (length p) s = p then [([], drop (length p) s)] else [])"
| "rx_run (LitI p) s =
     (if map ascii_lower (take (length p) s) = map ascii_lower p
      then [([], drop (length p) s)] else [])"
| "rx_run (Seq a b) s =
     concat (map (\<lambda>(ca, r). map (\<lambda>(cb, r'). (ca @ cb, r')) (rx_run b r)) (rx_run a s))"
| "rx_run (Alt a b) s =
     map (\<lambda>(ca, r). (ca @ replicate (ngroups b) None, r)) (rx_run a s) @
     map (\<lambda>(cb, r). (replicate (ngroups a) None @ cb, r)) (rx_run b s)"
| "rx_run (Opt a) s = rx_run a s @ [(replicate (ngroups a) None, s)]"
| "rx_run (Star P) s = map (\<lambda>r. ([], r)) (star_rems P s)"
| "rx_run (Plus P) s =
     (case s of [] \<Rightarrow> [] | c # cs \<Rightarrow> if P c then map (\<lambda>r. ([], r)) (star_rems P cs) else [])"
| "rx_run (Grp a) s =
     map (\<lambda>(ca, r). (Some (take (length s - length r) s) # ca, r)) (rx_run a s)"
| "rx_run Eoi s = (if s = [] then [([], [])] else [])"
| "rx_run Eps s = [([], s)]"

definition seqs :: "rx list \<Rightarrow> rx" where
  "seqs rs = foldr Seq rs Eps"

text \<open>
  A pattern that starts with \<^verbatim>\<open>^\<close> is tried at the start of the input only; one that does
  not is tried at every position from the left, and the first position with a match wins.
\<close>

definition rx_match :: "rx \<Rightarrow> jsstring \<Rightarrow> rx_result option" where
  "rx_match r s = (case rx_run r s of [] \<Rightarrow> None | m # _ \<Rightarrow> Some m)"

fun rx_search :: "rx \<Rightarrow> jsstring \<Rightarrow> rx_result option" where
  "rx_search r [] = rx_match r []"
| "rx_search r (c # cs) =
     (case rx_match r (c # cs) of Some m \<Rightarrow> Some m | None \<Rightarrow> rx_search r cs)"

definition rx_test :: "rx \<Rightarrow> jsstring \<Rightarrow> bool" where
  "rx_test r s \<longleftrightarrow> rx_match r s \<noteq> None"

section \<open>The intro-phrase filter\<close>

text \<open>
  \<^verbatim>\<open>INTRO_PHRASE_PATTERNS\<close>, in the order of the source. Each starts with \<^verbatim>\<open>^\<close> and has
  the flag \<^verbatim>\<open>i\<close>; the fifth and the sixth do not end with \<^verbatim>\<open>$\<close>. The apostrophe is the
  code unit 39.
\<close>

abbreviation ws :: rx where
  "ws \<equiv> Star is_space"

abbreviation ws1 :: rx where
  "ws1 \<equiv> Plus is_space"

definition lit_apos :: "string \<Rightarrow> rx" where
  "lit_apos s = LitI (39 # js s)"

definition INTRO_PHRASE_PATTERNS :: "rx list" where
  "INTRO_PHRASE_PATTERNS =
    [seqs [LitI (js ''here''), ws, Grp (Alt (LitI (js ''is'')) (lit_apos ''s'')), ws,
           Opt (Grp (LitI (js ''your''))), ws, Opt (Grp (LitI (js ''personalized''))), ws,
           Opt (Grp (Alt (LitI (js ''treatment'')) (LitI (js ''massage'')))), ws,
           Opt (Grp (LitI (js ''therapy''))), ws, LitI (js ''plan''),
           Opt (Lit (js '':'')), Opt (Lit (js ''.'')), Eoi],
     seqs [LitI (js ''this''), ws1, LitI (js ''is''), ws1,
           Opt (Grp (LitI (js ''your''))), ws, Opt (Grp (LitI (js ''personalized''))), ws,
           Opt (Grp (Alt (LitI (js ''treatment'')) (LitI (js ''massage'')))), ws,
           Opt (Grp (LitI (js ''therapy''))), ws, LitI (js ''plan''),
           Opt (Lit (js '':'')), Opt (Lit (js ''.'')), Eoi],
     seqs [Opt (Grp (LitI (js ''your''))), ws, Opt (Grp (LitI (js ''personalized''))), ws,
           Opt (Grp (Alt (LitI (js ''treatment'')) (LitI (js ''massage'')))), ws,
           Opt (Grp (LitI (js ''therapy''))), ws, LitI (js ''plan''),
           Opt (Lit (js '':'')), Opt (Lit (js ''.'')), Eoi],
     seqs [LitI (js ''below''), ws1, Grp (Alt (LitI (js ''is'')) (LitI (js ''are''))), ws1,
           Opt (Grp (LitI (js ''your''))), ws, Opt (Grp (LitI (js ''personalized''))), ws,
           Opt (Grp (Alt (LitI (js ''treatment'')) (LitI (js ''massage'')))), ws,
           LitI (js ''plan''), Opt (Lit (js '':'')), Opt (Lit (js ''.'')), Eoi],
     seqs [LitI (js ''i''),
           Grp (Alt (lit_apos ''ve'') (Alt (lit_apos ''ve'') (LitI (js '' have'')))), ws1,
           Grp (Alt (LitI (js ''created'')) (Alt (LitI (js ''prepared'')) (LitI (js ''developed'')))),
           ws1, Grp (Alt (LitI (js ''a'')) (LitI (js ''your''))), ws,
           Opt (Grp (LitI (js ''personalized''))), ws,
           Opt (Grp (Alt (LitI (js ''treatment'')) (LitI (js ''massage'')))), ws,
           LitI (js ''plan'')],
     seqs [LitI (js ''based''), ws1, LitI (js ''on''), ws1,
           Grp (Alt (LitI (js ''your'')) (LitI (js ''the''))), ws1,
           Grp (Alt (seqs [LitI (js ''case''), ws1, LitI (js ''note'')])
                    (Alt (LitI (js ''assessment'')) (LitI (js ''session''))))],
     seqs [LitI (js ''here''), Grp (Alt (lit_apos ''s'') (LitI (js '' is''))), ws1,
           LitI (js ''your''), ws1, LitI (js ''plan''),
           Opt (Lit (js '':'')), Opt (Lit (js ''.'')), Eoi]]"

definition isIntroPhrase :: "jsstring \<Rightarrow> bool" where
  "isIntroPhrase line = (let trimmed = trim line in list_ex (\<lambda>pattern. rx_test pattern trimmed) INTRO_PHRASE_PATTERNS)"

section \<open>The section splitter\<close>

text \<open>One numbered block of the plan text (the objects pushed to \<^verbatim>\<open>sections\<close>).\<close>

record plan_section =
  number :: jsstring
  title :: jsstring
  description :: jsstring
  lines :: "jsstring list"
  isOrphaned :: bool

text \<open>The header pattern \<^verbatim>\<open>/^\s*(\d)\.\s*(.+)$/\<close>.\<close>

definition header_rx :: rx where
  "header_rx = seqs [ws, Grp (Cls is_digit), Lit (js ''.''), ws, Grp (Plus is_dot), Eoi]"

text \<open>
  \<^verbatim>\<open>orphanedLines.filter(l => l.trim().length > 0 && !isIntroPhrase(l))\<close>, and the section
  pushed for what is left. A section of the source without the field \<^verbatim>\<open>isOrphaned\<close> has
  \<open>isOrphaned = False\<close>: the only reader of the field tests its truth.
\<close>

definition meaningfulLines :: "jsstring list \<Rightarrow> jsstring list" where
  "meaningfulLines orphanedLines = filter (\<lambda>l. length (trim l) > 0 \<and> \<not> isIntroPhrase l) orphanedLines"

definition orphaned_section :: "jsstring list \<Rightarrow> plan_section" where
  "orphaned_section ml =
     \<lparr>number = js ''0'', title = js ''Additional Notes'', description = [], lines = ml,
      isOrphaned = True\<rparr>"

definition push_orphaned :: "plan_section list \<Rightarrow> jsstring list \<Rightarrow> plan_section list" where
  "push_orphaned sections orphanedLines =
     (let ml = meaningfulLines orphanedLines in
      if length ml > 0 then sections @ [orphaned_section ml] else sections)"

definition push_current :: "plan_section list \<Rightarrow> plan_section option \<Rightarrow> plan_section list" where
  "push_current sections current =
     (case current of None \<Rightarrow> sections | Some cur \<Rightarrow> sections @ [cur])"

text \<open>
  The title and the description of a header: split at the first colon when it is not the
  first code unit.
\<close>

definition new_section :: "jsstring \<Rightarrow> jsstring \<Rightarrow> plan_section" where
  "new_section m1 m2 =
     (let fullContent = trim m2;
          colonIndex = indexOf fullContent 58;
          title = (if colonIndex > 0 then trim (take (nat colonIndex) fullContent) else fullContent);
          description = (if colonIndex > 0 then trim (drop (nat colonIndex + 1) fullContent) else [])
      in \<lparr>number = m1, title = title, description = description,
          lines = (if description \<noteq> [] then [description] else []), isOrphaned = False\<rparr>)"

text \<open>
  The state of the loop of \<^verbatim>\<open>parsePlanText\<close>: \<^verbatim>\<open>sections\<close>, \<^verbatim>\<open>current\<close> (\<open>None\<close> for
  \<^verbatim>\<open>null\<close>) and \<^verbatim>\<open>orphanedLines\<close>; \<open>parse_line\<close> is one turn of the loop. A match of the
  header pattern always has its two groups (\<open>header_match_shape\<close> below), so the second case
  is the case of no match.
\<close>

type_synonym parse_state = "plan_section list \<times> plan_section option \<times> jsstring list"

fun parse_line :: "parse_state \<Rightarrow> jsstring \<Rightarrow> parse_state" where
  "parse_line (sections, current, orphanedLines) rawLine =
     (let line = trimEnd rawLine in
      case rx_match header_rx line of
        Some ([Some m1, Some m2], _) \<Rightarrow>
          (let flush = (length orphanedLines > 0 \<and> current = None);
               sections1 = (if flush then push_orphaned sections orphanedLines else sections);
               orphanedLines1 = (if flush then [] else orphanedLines);
               sections2 = push_current sections1 current
           in (sections2, Some (new_section m1 m2), orphanedLines1))
      | _ \<Rightarrow>
          (case current of
             Some cur \<Rightarrow> (sections, Some (cur\<lparr>lines := lines cur @ [line]\<rparr>), orphanedLines)
           | None \<Rightarrow>
               if trim line \<noteq> [] then (sections, None, orphanedLines @ [line])
               else (sections, None, orphanedLines)))"

definition parsePlanText :: "jsstring \<Rightarrow> plan_section list" where
  "parsePlanText planText =
     (case foldl parse_line ([], None, []) (split_on 10 planText) of
        (sections, current, orphanedLines) \<Rightarrow>
          push_current
            (if length orphanedLines > 0 then push_orphaned sections orphanedLines else sections)
            current)"

section \<open>Escaping\<close>

text \<open>
  \<^verbatim>\<open>.replace(/\*\*/g, '')\<close>: from the left, every two adjacent asterisks are removed (of
  three asterisks, the third stays). \<open>replace_char\<close> is \<^verbatim>\<open>.replace(/c/g, rep)\<close> for a single
  code unit \<^verbatim>\<open>c\<close>.
\<close>

fun strip_bold :: "jsstring \<Rightarrow> jsstring" where
  "strip_bold (a # b # cs) = (if a = 42 \<and> b = 42 then strip_bold cs else a # strip_bold (b # cs))"
| "strip_bold cs = cs"

definition replace_char :: "jschar \<Rightarrow> jsstring \<Rightarrow> jsstring \<Rightarrow> jsstring" where
  "replace_char c rep s = concat (map (\<lambda>x. if x = c then rep else [x]) s)"

definition escapeHtml :: "jsstring \<Rightarrow> jsstring" where
  "escapeHtml text =
     replace_char 62 (js ''&gt;'')
       (replace_char 60 (js ''&lt;'')
         (replace_char 38 (js ''&amp;'')
           (strip_bold text)))"

section \<open>The Goals and Key Actions renderers\<close>

text \<open>
  The first loop of \<^verbatim>\<open>renderGoalsSection\<close> and \<^verbatim>\<open>renderKeyActionsSection\<close>: the trimmed
  lines that are not empty and start neither with \<^verbatim>\<open>"\<close> (34) nor with \<^verbatim>\<open>*\<close> (42).
\<close>

definition candidate_lines :: "jsstring list \<Rightarrow> jsstring list" where
  "candidate_lines ls =
     filter (\<lambda>trimmedLine. trimmedLine \<noteq> [] \<and> \<not> startsWith trimmedLine [34] \<and> \<not> startsWith trimmedLine [42])
       (map trim ls)"

text \<open>
  \<^verbatim>\<open>.replace(/^[,\s]+|[,\s]+$/g, '')\<close>: the first alternative matches the run of commas and
  white space at the start, the second one only a run that reaches the end of the string.
\<close>

definition is_comma_space :: "jschar \<Rightarrow> bool" where
  "is_comma_space c \<longleftrightarrow> c = 44 \<or> is_space c"

definition strip_comma_space :: "jsstring \<Rightarrow> jsstring" where
  "strip_comma_space s = rev (dropWhile is_comma_space (rev (dropWhile is_comma_space s)))"

text \<open>
  The fallback of both renderers: the sentences of the joined candidate lines.
  \<open>sentence_item\<close> is the function given to \<^verbatim>\<open>forEach\<close>: what it pushes for one sentence.
\<close>

definition sentence_item :: "jsstring \<Rightarrow> jsstring list" where
  "sentence_item sentence =
     (let cleanSentence = trim sentence in
      if length cleanSentence > 0 \<and> \<not> includes_js cleanSentence [42]
      then (let finalSentence = strip_comma_space cleanSentence in
            if length finalSentence > 0 then [finalSentence] else [])
      else [])"

definition sentence_items :: "jsstring list \<Rightarrow> jsstring list" where
  "sentence_items goals =
     (let allText = join (js '' '') goals;
          sentences = filter (\<lambda>s. length (trim s) > 0) (split_on 46 allText)
      in concat (map sentence_item sentences))"

definition li :: "jsstring \<Rightarrow> jsstring" where
  "li item = js ''<li>'' @ escapeHtml item @ js ''</li>''"

definition renderGoalsSection :: "plan_section \<Rightarrow> jsstring" where
  \<open>renderGoalsSection section =
     (let goals = candidate_lines (lines section) in
      if length goals \<ge> 3 then
        (let finalGoals = filter (\<lambda>goal. length goal > 0) (take 3 goals);
             goalsHtml = join [] (map li finalGoals)
         in
          js ''\<newline>      <section class="section">'' @
          js ''\<newline>        <h2><span class="num">'' @
          number section @
          js ''.</span> '' @
          escapeHtml (title section) @
          js ''</h2>'' @
          js ''\<newline>        <ul>'' @
          goalsHtml @
          js ''</ul>'' @
          js ''\<newline>      </section>'' @
          js ''\<newline>    '')
      else
        (let goals1 = (if length goals > 0 then sentence_items goals else goals);
             goalsHtml = join [] (map li goals1)
         in
          js ''\<newline>    <section class="section">'' @
          js ''\<newline>      <h2><span class="num">'' @
          number section @
          js ''.</span> '' @
          escapeHtml (title section) @
          js ''</h2>'' @
          js ''\<newline>      <ul>'' @
          goalsHtml @
          js ''</ul>'' @
          js ''\<newline>    </section>'' @
          js ''\<newline>  ''))\<close>

definition renderKeyActionsSection :: "plan_section \<Rightarrow> jsstring" where
  \<open>renderKeyActionsSection section =
     (let actions = candidate_lines (lines section) in
      if length actions \<ge> 3 then
        (let finalActions = filter (\<lambda>action. length action > 0) (take 3 actions);
             actionsHtml = join [] (map li finalActions)
         in
          js ''\<newline>      <section class="section">'' @
          js ''\<newline>        <h2><span class="num">'' @
          number section @
          js ''.</span> '' @
          escapeHtml (title section) @
          js ''</h2>'' @
          js ''\<newline>        <ol>'' @
          actionsHtml @
          js ''</ol>'' @
          js ''\<newline>      </section>'' @
          js ''\<newline>    '')
      else
        (let actions1 = (if length actions > 0 then sentence_items actions else actions);
             actionsHtml = join [] (map li actions1)
         in
          js ''\<newline>    <section class="section">'' @
          js ''\<newline>      <h2><span class="num">'' @
          number section @
          js ''.</span> '' @
          escapeHtml (title section) @
          js ''</h2>'' @
          js ''\<newline>      <ol>'' @
          actionsHtml @
          js ''</ol>'' @
          js ''\<newline>    </section>'' @
          js ''\<newline>  ''))\<close>

section \<open>The Treatment Plan renderer\<close>

text \<open>
  A phase of the treatment plan; the fields \<^verbatim>\<open>title\<close>, \<^verbatim>\<open>subtitle\<close>, \<^verbatim>\<open>content\<close> and
  \<^verbatim>\<open>recommended\<close> of the source carry the prefix \<open>phase_\<close> here.
\<close>

record phase =
  phase_title :: jsstring
  phase_subtitle :: jsstring
  phase_content :: "jsstring list"
  phase_recommended :: jsstring

definition isPhaseHeader :: "jsstring \<Rightarrow> bool" where
  "isPhaseHeader trimmedLine \<longleftrightarrow>
     includes_js trimmedLine (js ''Getting You Comfortable'') \<or>
     includes_js trimmedLine (js ''Keeping You at Your Best'')"

text \<open>\<^verbatim>\<open>/\*?\*?([^*]+)\*?\*?\s*\(([^)]+)\)/\<close>, searched from the left.\<close>

definition phase_header_rx :: rx where
  "phase_header_rx =
     seqs [Opt (Lit [42]), Opt (Lit [42]), Grp (Plus (\<lambda>c. c \<noteq> 42)), Opt (Lit [42]), Opt (Lit [42]),
           ws, Lit (js ''(''), Grp (Plus (\<lambda>c. c \<noteq> 41)), Lit (js '')'')]"

text \<open>\<^verbatim>\<open>/^Recommended:\s*(.+)/i\<close>.\<close>

definition recommended_rx :: rx where
  "recommended_rx = seqs [LitI (js ''recommended:''), ws, Grp (Plus is_dot)]"

definition new_phase :: "jsstring \<Rightarrow> phase" where
  "new_phase trimmedLine =
     (case rx_search phase_header_rx trimmedLine of
        Some ([Some m1, Some m2], _) \<Rightarrow>
          \<lparr>phase_title = trim m1, phase_subtitle = trim m2, phase_content = [], phase_recommended = []\<rparr>
      | _ \<Rightarrow>
          \<lparr>phase_title = trim (filter (\<lambda>c. c \<noteq> 42) trimmedLine), phase_subtitle = [],
           phase_content = [], phase_recommended = []\<rparr>)"

text \<open>
  One turn of the loop over the lines: the state is \<^verbatim>\<open>phases\<close> and \<^verbatim>\<open>currentPhase\<close>.
\<close>

fun phase_line :: "phase list \<times> phase option \<Rightarrow> jsstring \<Rightarrow> phase list \<times> phase option" where
  "phase_line (phases, currentPhase) line =
     (let trimmedLine = trim line in
      if isPhaseHeader trimmedLine then
        ((case currentPhase of None \<Rightarrow> phases | Some p \<Rightarrow> phases @ [p]), Some (new_phase trimmedLine))
      else
        (case currentPhase of
           None \<Rightarrow> (phases, None)
         | Some p \<Rightarrow>
             (case rx_match recommended_rx trimmedLine of
                Some ([Some m1], _) \<Rightarrow> (phases, Some (p\<lparr>phase_recommended := trim m1\<rparr>))
              | _ \<Rightarrow>
                  if length trimmedLine > 0 \<and> \<not> startsWith trimmedLine (js ''**'')
                  then (phases, Some (p\<lparr>phase_content := phase_content p @ [trimmedLine]\<rparr>))
                  else (phases, Some p))))"

definition parse_phases :: "jsstring list \<Rightarrow> phase list" where
  "parse_phases ls =
     (case foldl phase_line ([], None) ls of
        (phases, currentPhase) \<Rightarrow>
          (case currentPhase of None \<Rightarrow> phases | Some p \<Rightarrow> phases @ [p]))"

definition phase_card :: "phase \<Rightarrow> jsstring" where
  \<open>phase_card phase =
     (let contentText = trim (join (js '' '') (phase_content phase)) in
      js ''\<newline>      <div class="treatment-phase-card">'' @
      js ''\<newline>        <div class="treatment-phase-header">'' @
      js ''\<newline>          <span class="treatment-phase-title">'' @
      escapeHtml (phase_title phase) @
      js ''</span>'' @
      js ''\<newline>          '' @
      (if phase_subtitle phase \<noteq> [] then
          js ''<span class="treatment-phase-subtitle">('' @
          escapeHtml (phase_subtitle phase) @
          js '')</span>''
        else []) @
      js ''\<newline>        </div>'' @
      js ''\<newline>        <div class="treatment-phase-content">'' @
      js ''\<newline>          <p>'' @
      escapeHtml contentText @
      js ''</p>'' @
      js ''\<newline>        </div>'' @
      js ''\<newline>        '' @
      (if phase_recommended phase \<noteq> [] then
          js ''\<newline>        <div class="treatment-phase-recommended">'' @
          js ''\<newline>          <strong>Recommended:</strong> '' @
          escapeHtml (phase_recommended phase) @
          js ''\<newline>        </div>'' @
          js ''\<newline>        ''
        else []) @
      js ''\<newline>      </div>'' @
      js ''\<newline>    '')\<close>

definition renderTreatmentPlanSection :: "plan_section \<Rightarrow> jsstring" where
  \<open>renderTreatmentPlanSection section =
     (let phases = parse_phases (lines section);
          html =
            js ''\<newline>    <section class="section treatment-plan-section">'' @
            js ''\<newline>      <h2><span class="num">'' @
            number section @
            js ''.</span> '' @
            escapeHtml (title section) @
            js ''</h2>'' @
            js ''\<newline>  ''
      in foldl (\<lambda>html phase. html @ phase_card phase) html phases @
        js ''\<newline>    </section>'' @
        js ''\<newline>  '')\<close>

section \<open>The document assembler\<close>

text \<open>
  \<^verbatim>\<open>/^\s*[-*\<bullet>]\s+/\<close>, where the third character of the class is the bullet U+2022 (8226).
  \<^verbatim>\<open>test\<close> says whether it matches, and \<^verbatim>\<open>l.replace\<close> with the empty string leaves the rest
  of the line after the match.
\<close>

definition bullet_rx :: rx where
  "bullet_rx = seqs [ws, Cls (\<lambda>c. c = 45 \<or> c = 42 \<or> c = 8226), ws1]"

text \<open>
  One turn of the loop over the lines of a generic or orphaned section: the state is
  \<^verbatim>\<open>items\<close> and \<^verbatim>\<open>bullets\<close>.
\<close>

fun item_line :: "jsstring list \<times> jsstring list \<Rightarrow> jsstring \<Rightarrow> jsstring list \<times> jsstring list" where
  "item_line (items, bullets) l =
     (case rx_match bullet_rx l of
        Some (_, rest) \<Rightarrow> (items, bullets @ [li rest])
      | None \<Rightarrow>
          if length (trim l) > 0 then
            ((if length bullets > 0 then items @ [js ''<ul>'' @ join [] bullets @ js ''</ul>''] else items) @
               [js ''<p>'' @ escapeHtml l @ js ''</p>''],
             [])
          else (items, bullets))"

definition section_items :: "jsstring list \<Rightarrow> jsstring list" where
  "section_items ls =
     (case foldl item_line ([], []) ls of
        (items, bullets) \<Rightarrow>
          if length bullets > 0 then items @ [js ''<ul>'' @ join [] bullets @ js ''</ul>''] else items)"

text \<open>The function mapped over the sections in \<^verbatim>\<open>renderStructuredHtml\<close>.\<close>

definition render_section :: "plan_section \<Rightarrow> jsstring" where
  \<open>render_section sec =
     (if isOrphaned sec then
        (let items = section_items (lines sec) in
          js ''\<newline>        <section class="section orphaned-section">'' @
          js ''\<newline>          <h2>'' @
          escapeHtml (title sec) @
          js ''</h2>'' @
          js ''\<newline>          '' @
          join (js ''\<newline>'') items @
          js ''\<newline>        </section>'' @
          js ''\<newline>      '')
      else if number sec = js ''5'' \<and> includes_js (title sec) (js ''Treatment Plan'') then
        renderTreatmentPlanSection sec
      else if number sec = js ''3'' \<and> includes_js (title sec) (js ''Goals'') then
        renderGoalsSection sec
      else if number sec = js ''4'' \<and> includes_js (title sec) (js ''Key Actions'') then
        renderKeyActionsSection sec
      else
        (let items = section_items (lines sec) in
          js ''\<newline>      <section class="section">'' @
          js ''\<newline>        <h2><span class="num">'' @
          number sec @
          js ''.</span> '' @
          escapeHtml (title sec) @
          js ''</h2>'' @
          js ''\<newline>        '' @
          join (js ''\<newline>'') items @
          js ''\<newline>      </section>'' @
          js ''\<newline>    ''))\<close>

text \<open>
  The content of \<^verbatim>\<open><main>\<close>: the rendered sections joined by newlines or, when that string
  is empty, the escaped plan text as one paragraph.
\<close>

definition renderMain :: "jsstring \<Rightarrow> jsstring" where
  \<open>renderMain planText =
     (let sections = parsePlanText planText;
          sectionHtml = join (js ''\<newline>'') (map render_section sections)
      in if sectionHtml \<noteq> [] then sectionHtml
         else js ''<div class="section"><p>'' @
              replace_char 10 (js ''<br/>'') (escapeHtml planText) @
              js ''</p></div>'')\<close>

text \<open>
  \<^verbatim>\<open>renderStructuredHtml\<close>: the page is a fixed shell around the content of \<^verbatim>\<open><main>\<close>.
  The text of the shell before and after that content (head, style sheet, header with the
  patient line and the QR block, footer with the date) does not depend on the plan text and
  is a parameter here.
\<close>

definition renderStructuredHtml :: "jsstring \<Rightarrow> jsstring \<Rightarrow> jsstring \<Rightarrow> jsstring" where
  "renderStructuredHtml shellBefore shellAfter planText = shellBefore @ renderMain planText @ shellAfter"

section \<open>The shape of the section list\<close>

text \<open>
  A section made from a header line: not orphaned, its number one ASCII digit. A list of
  sections is \<open>shaped\<close> when only its first element may be the orphaned section. The state
  of the loop of \<^verbatim>\<open>parsePlanText\<close> keeps \<open>parse_inv\<close>.
\<close>

definition real_section :: "plan_section \<Rightarrow> bool" where
  "real_section s \<longleftrightarrow> \<not> isOrphaned s \<and> (\<exists>d. is_digit d \<and> number s = [d])"

fun shaped :: "plan_section list \<Rightarrow> bool" where
  "shaped [] = True"
| "shaped (s # ss) =
     ((real_section s \<or> (\<exists>ml. s = orphaned_section ml)) \<and> (\<forall>x \<in> set ss. real_section x))"

definition parse_inv :: "parse_state \<Rightarrow> bool" where
  "parse_inv st = (case st of (sections, current, orphanedLines) \<Rightarrow>
     (current = None \<longrightarrow> sections = []) \<and>
     (current \<noteq> None \<longrightarrow> orphanedLines = []) \<and>
     (\<forall>c. current = Some c \<longrightarrow> real_section c) \<and> shaped sections)"

section \<open>The sentence fallback in the words of the specification\<close>

text \<open>
  The items of the fallback as the specification describes them: join the candidate lines
  with spaces, split at the period, discard the empty fragments and those with an asterisk,
  trim commas and white space off both ends of each fragment, keep the non-empty results.
\<close>

definition spec_sentence_items :: "jsstring list \<Rightarrow> jsstring list" where
  "spec_sentence_items candidates =
     filter (\<lambda>item. item \<noteq> [])
       (map strip_comma_space
         (filter (\<lambda>fragment. fragment \<noteq> [] \<and> 42 \<notin> set fragment)
           (split_on 46 (join (js '' '') candidates))))"

section \<open>Body text of a treatment phase\<close>

text \<open>
  A line of body text inside a phase: its trimmed text is neither a phase header nor a
  \<^verbatim>\<open>Recommended:\<close> line. Of such lines the loop appends to \<^verbatim>\<open>content\<close> the trimmed text of
  those that are not blank and do not start with two asterisks.
\<close>

definition phase_body_line :: "jsstring \<Rightarrow> bool" where
  "phase_body_line l \<longleftrightarrow> \<not> isPhaseHeader (trim l) \<and> rx_match recommended_rx (trim l) = None"

definition phase_body_content :: "jsstring list \<Rightarrow> jsstring list" where
  "phase_body_content body =
     filter (\<lambda>trimmedLine. length trimmedLine > 0 \<and> \<not> startsWith trimmedLine (js ''**'')) (map trim body)"

section \<open>Escaping, one character at a time\<close>

text \<open>
  What the specification says of the three characters: \<^verbatim>\<open>&\<close> becomes \<^verbatim>\<open>&amp;\<close>, \<^verbatim>\<open><\<close> becomes
  \<^verbatim>\<open>&lt;\<close>, \<^verbatim>\<open>>\<close> becomes \<^verbatim>\<open>&gt;\<close>, every other code unit stays.
\<close>

definition escape_char :: "jschar \<Rightarrow> jsstring" where
  "escape_char c =
     (if c = 38 then js ''&amp;'' else if c = 60 then js ''&lt;'' else if c = 62 then js ''&gt;''
      else [c])"

section \<open>Well-formed numbered headers\<close>

text \<open>
  The header line \<^verbatim>\<open>"N. Title: description"\<close> for a digit \<open>n\<close>. A title is well formed when it
  is not empty and has no white space around it, no colon and no line terminator; a
  description (which may be empty) when it has no white space around it and no line
  terminator. A content line is a line (without newline) that does not match the header
  pattern. A block is a header with the content lines under it; \<open>block_section\<close> is the
  section expected for it.
\<close>

definition header_line :: "jschar \<Rightarrow> jsstring \<Rightarrow> jsstring \<Rightarrow> jsstring" where
  "header_line n t d = n # js ''. '' @ t @ js '': '' @ d"

definition well_formed_title :: "jsstring \<Rightarrow> bool" where
  "well_formed_title t \<longleftrightarrow> t \<noteq> [] \<and> trim t = t \<and> 58 \<notin> set t \<and> list_all is_dot t"

definition well_formed_description :: "jsstring \<Rightarrow> bool" where
  "well_formed_description d \<longleftrightarrow> trim d = d \<and> list_all is_dot d"

definition content_line :: "jsstring \<Rightarrow> bool" where
  "content_line l \<longleftrightarrow> 10 \<notin> set l \<and> rx_match header_rx (trimEnd l) = None"

type_synonym block = "jschar \<times> jsstring \<times> jsstring \<times> jsstring list"

fun block_lines :: "block \<Rightarrow> jsstring list" where
  "block_lines (n, t, d, body) = header_line n t d # body"

fun block_section :: "block \<Rightarrow> plan_section" where
  "block_section (n, t, d, body) =
     \<lparr>number = [n], title = t, description = d,
      lines = (if d \<noteq> [] then [d] else []) @ map trimEnd body, isOrphaned = False\<rparr>"

fun well_formed_block :: "block \<Rightarrow> bool" where
  "well_formed_block (n, t, d, body) \<longleftrightarrow>
     is_digit n \<and> well_formed_title t \<and> well_formed_description d \<and> list_all content_line body"

text \<open>What \<^verbatim>\<open>parsePlanText\<close> returns for the state in which its loop ends.\<close>

fun finish :: "parse_state \<Rightarrow> plan_section list" where
  "finish (sections, current, orphanedLines) =
     push_current
       (if length orphanedLines > 0 then push_orphaned sections orphanedLines else sections)
       current"

section \<open>Patterns whose groups always take part\<close>

text \<open>
  A pattern is \<open>solid\<close> when none of its groups stands under \<^verbatim>\<open>?\<close> or \<^verbatim>\<open>|\<close>: every match of it
  then has a text for every group.
\<close>

fun solid :: "rx \<Rightarrow> bool" where
  "solid (Seq a b) \<longleftrightarrow> solid a \<and> solid b"
| "solid (Alt a b) \<longleftrightarrow> ngroups a = 0 \<and> ngroups b = 0"
| "solid (Opt a) \<longleftrightarrow> ngroups a = 0"
| "solid (Grp a) \<longleftrightarrow> solid a"
| "solid _ \<longleftrightarrow> True"

section \<open>Evaluation on concrete inputs\<close>

lemmas eval_defs =
  js_def seqs_def rx_match_def rx_test_def is_space_def is_digit_def is_dot_def
  is_line_terminator_def trim_def trimEnd_def trimStart_def ascii_lower_def lit_apos_def
  startsWith_def indexOf_def Let_def

lemmas parse_defs =
  parsePlanText_def header_rx_def new_section_def push_current_def push_orphaned_def
  meaningfulLines_def orphaned_section_def isIntroPhrase_def INTRO_PHRASE_PATTERNS_def

section \<open>The orphaned-content scenario\<close>

text \<open>
  C9: for the input \<^verbatim>\<open>"Here is your personalized treatment plan.\n\nSome clinician note.\n1. Starting Point: ..."\<close>
  the splitter returns first the orphaned section (number \<^verbatim>\<open>"0"\<close>, title
  \<^verbatim>\<open>"Additional Notes"\<close>) whose only line is \<^verbatim>\<open>"Some clinician note."\<close> (the intro phrase
  is filtered out, the blank line is dropped), then section 1.
\<close>

theorem orphaned_scenario:
  "parsePlanText (js ''Here is your personalized treatment plan.\<newline>\<newline>Some clinician note.\<newline>1. Starting Point: ...'') =
     [\<lparr>number = js ''0'', title = js ''Additional Notes'', description = [],
       lines = [js ''Some clinician note.''], isOrphaned = True\<rparr>,
      \<lparr>number = js ''1'', title = js ''Starting Point'', description = js ''...'',
       lines = [js ''...''], isOrphaned = False\<rparr>]"
  by (simp add: eval_defs parse_defs)

section \<open>The groups of a match\<close>

lemma run_length: "(caps, rest) \<in> set (rx_run r s) \<Longrightarrow> length caps = ngroups r"
proof (induction r arbitrary: caps rest s)
  case (Cls P)
  then show ?case by (auto split: list.splits if_splits)
next
  case (Lit p)
  then show ?case by (auto split: if_splits)
next
  case (LitI p)
  then show ?case by (auto split: if_splits)
next
  case (Seq a b)
  from Seq.prems obtain ca r1 cb where
    "(ca, r1) \<in> set (rx_run a s)" "(cb, rest) \<in> set (rx_run b r1)" "caps = ca @ cb"
    by auto
  then show ?case using Seq.IH by fastforce
next
  case (Alt a b)
  from Alt.prems consider ca where "(ca, rest) \<in> set (rx_run a s)" "caps = ca @ replicate (ngroups b) None"
    | cb where "(cb, rest) \<in> set (rx_run b s)" "caps = replicate (ngroups a) None @ cb"
    by auto
  then show ?case using Alt.IH by cases fastforce+
next
  case (Opt a)
  from Opt.prems consider "(caps, rest) \<in> set (rx_run a s)" | "caps = replicate (ngroups a) None"
    by auto
  then show ?case using Opt.IH by cases auto
next
  case (Star P)
  then show ?case by auto
next
  case (Plus P)
  then show ?case by (auto split: list.splits if_splits)
next
  case (Grp a)
  from Grp.prems obtain ca where "(ca, rest) \<in> set (rx_run a s)" "length caps = Suc (length ca)"
    by auto
  then show ?case using Grp.IH by fastforce
next
  case Eoi
  then show ?case by (auto split: if_splits)
next
  case Eps
  then show ?case by auto
qed

lemma run_solid:
  "solid r \<Longrightarrow> (caps, rest) \<in> set (rx_run r s) \<Longrightarrow> None \<notin> set caps"
proof (induction r arbitrary: caps rest s)
  case (Cls P)
  then show ?case by (auto split: list.splits if_splits)
next
  case (Lit p)
  then show ?case by (auto split: if_splits)
next
  case (LitI p)
  then show ?case by (auto split: if_splits)
next
  case (Seq a b)
  from Seq.prems(2) obtain ca r1 cb where
    "(ca, r1) \<in> set (rx_run a s)" "(cb, rest) \<in> set (rx_run b r1)" "caps = ca @ cb"
    by auto
  then show ?case using Seq.IH Seq.prems(1) by fastforce
next
  case (Alt a b)
  from Alt.prems(2) consider ca where "(ca, rest) \<in> set (rx_run a s)" "caps = ca @ replicate (ngroups b) None"
    | cb where "(cb, rest) \<in> set (rx_run b s)" "caps = replicate (ngroups a) None @ cb"
    by auto
  then show ?case
  proof cases
    case 1
    then show ?thesis using run_length[of ca rest a s] Alt.prems(1) by simp
  next
    case 2
    then show ?thesis using run_length[of cb rest b s] Alt.prems(1) by simp
  qed
next
  case (Opt a)
  from Opt.prems(2) consider "(caps, rest) \<in> set (rx_run a s)" | "caps = replicate (ngroups a) None"
    by auto
  then show ?case
  proof cases
    case 1
    then show ?thesis using run_length[of caps rest a s] Opt.prems(1) by simp
  next
    case 2
    then show ?thesis using Opt.prems(1) by simp
  qed
next
  case (Star P)
  then show ?case by auto
next
  case (Plus P)
  then show ?case by (auto split: list.splits if_splits)
next
  case (Grp a)
  from Grp.prems(2) obtain ca x where "(ca, rest) \<in> set (rx_run a s)" "caps = Some x # ca"
    by auto
  then show ?case using Grp.IH Grp.prems(1) by fastforce
next
  case Eoi
  then show ?case by (auto split: if_splits)
next
  case Eps
  then show ?case by auto
qed

lemma match_in_run: "rx_match r s = Some m \<Longrightarrow> m \<in> set (rx_run r s)"
  by (auto simp: rx_match_def split: list.splits)

lemma search_in_run: "rx_search r s = Some m \<Longrightarrow> \<exists>s'. m \<in> set (rx_run r s')"
proof (induction s)
  case Nil
  then show ?case using match_in_run by fastforce
next
  case (Cons c cs)
  then show ?case using match_in_run[of r "c # cs" m] by (auto split: option.splits)
qed

lemma two_groups: "length caps = 2 \<Longrightarrow> None \<notin> set caps \<Longrightarrow> \<exists>a b. caps = [Some a, Some b]"
proof -
  assume l: "length caps = 2" and n: "None \<notin> set caps"
  then obtain x y where c: "caps = [x, y]"
    by (cases caps; cases "tl caps") auto
  then obtain a b where "x = Some a" "y = Some b" using n by (cases x; cases y) auto
  then show ?thesis using c by simp
qed

text \<open>
  A match of the phase-header pattern has both groups and a match of the \<^verbatim>\<open>Recommended:\<close>
  pattern has its group, so that the last case of \<open>new_phase\<close> and of \<open>phase_line\<close> is the
  case of no match.
\<close>

lemma phase_header_search_shape:
  assumes "rx_search phase_header_rx s = Some m"
  shows "\<exists>a b r. m = ([Some a, Some b], r)"
proof -
  obtain caps r where m: "m = (caps, r)" by (cases m)
  obtain s' where "(caps, r) \<in> set (rx_run phase_header_rx s')"
    using search_in_run[OF assms] m by blast
  moreover have "ngroups phase_header_rx = 2" "solid phase_header_rx"
    by (simp_all add: phase_header_rx_def seqs_def)
  ultimately have "length caps = 2" "None \<notin> set caps"
    using run_length run_solid by metis+
  then show ?thesis using two_groups m by blast
qed

lemma recommended_match_shape:
  assumes "rx_match recommended_rx s = Some m"
  shows "\<exists>a r. m = ([Some a], r)"
proof -
  obtain caps r where m: "m = (caps, r)" by (cases m)
  have "(caps, r) \<in> set (rx_run recommended_rx s)"
    using match_in_run[OF assms] m by simp
  moreover have "ngroups recommended_rx = 1" "solid recommended_rx"
    by (simp_all add: recommended_rx_def seqs_def)
  ultimately have "length caps = 1" "None \<notin> set caps"
    using run_length run_solid by metis+
  then obtain a where "caps = [Some a]"
    by (cases caps; cases "hd caps") auto
  then show ?thesis using m by simp
qed

section \<open>The section splitter: shape of the result\<close>

lemma header_results:
  "m \<in> set (rx_run header_rx l) \<Longrightarrow> \<exists>d g. m = ([Some [d], Some g], []) \<and> is_digit d \<and> g \<noteq> []"
  unfolding header_rx_def seqs_def
  by (auto split: list.splits if_splits)

lemma header_match_shape:
  "rx_match header_rx l = Some m \<Longrightarrow> \<exists>d g. m = ([Some [d], Some g], []) \<and> is_digit d \<and> g \<noteq> []"
  using header_results[of m l] unfolding rx_match_def by (auto split: list.splits)

lemma parse_line_plain:
  assumes "rx_match header_rx (trimEnd rawLine) = None"
  shows "parse_line (sections, current, orphanedLines) rawLine =
     (case current of
        Some cur \<Rightarrow> (sections, Some (cur\<lparr>lines := lines cur @ [trimEnd rawLine]\<rparr>), orphanedLines)
      | None \<Rightarrow> (sections, None, orphanedLines @ (if trim (trimEnd rawLine) \<noteq> [] then [trimEnd rawLine] else [])))"
  using assms by (simp add: Let_def split: option.splits)

lemma parse_line_header:
  assumes "rx_match header_rx (trimEnd rawLine) = Some ([Some m1, Some m2], r)"
  shows "parse_line (sections, current, orphanedLines) rawLine =
     (push_current (if orphanedLines \<noteq> [] \<and> current = None then push_orphaned sections orphanedLines else sections) current,
      Some (new_section m1 m2),
      (if orphanedLines \<noteq> [] \<and> current = None then [] else orphanedLines))"
  using assms by (simp add: Let_def)

lemma shaped_snoc: "shaped ss \<Longrightarrow> real_section c \<Longrightarrow> shaped (ss @ [c])"
  by (cases ss) auto

lemma real_new_section: "is_digit d \<Longrightarrow> real_section (new_section [d] g)"
  by (auto simp: real_section_def new_section_def Let_def)

lemma shaped_push_orphaned: "shaped (push_orphaned [] ol)"
  by (auto simp: push_orphaned_def Let_def)

lemma parse_inv_step: "parse_inv st \<Longrightarrow> parse_inv (parse_line st rawLine)"
proof (cases st)
  case (fields sections current orphanedLines)
  assume inv: "parse_inv st"
  show ?thesis
  proof (cases "rx_match header_rx (trimEnd rawLine)")
    case None
    show ?thesis
    proof (cases current)
      case None' : None
      then show ?thesis using inv unfolding fields parse_line_plain[OF None]
        by (simp add: parse_inv_def)
    next
      case (Some c)
      then show ?thesis using inv unfolding fields parse_line_plain[OF None]
        by (simp add: parse_inv_def real_section_def)
    qed
  next
    case (Some m)
    then obtain d g where m: "m = ([Some [d], Some g], [])" and d: "is_digit d"
      using header_match_shape by blast
    have eq: "rx_match header_rx (trimEnd rawLine) = Some ([Some [d], Some g], [])"
      using Some m by simp
    show ?thesis
    proof (cases current)
      case None
      then have "sections = []" using inv fields by (simp add: parse_inv_def)
      then show ?thesis using None d unfolding fields parse_line_header[OF eq]
        by (simp add: parse_inv_def push_current_def real_new_section shaped_push_orphaned)
    next
      case (Some c)
      have c: "real_section c" and sh: "shaped sections" and o: "orphanedLines = []"
        using inv fields Some by (simp_all add: parse_inv_def)
      show ?thesis using Some d o shaped_snoc[OF sh c] unfolding fields parse_line_header[OF eq]
        by (simp add: parse_inv_def push_current_def real_new_section)
    qed
  qed
qed

lemma parse_inv_foldl: "parse_inv st \<Longrightarrow> parse_inv (foldl parse_line st ls)"
  by (induction ls arbitrary: st) (simp_all add: parse_inv_step)

lemma parse_inv_init: "parse_inv ([], None, [])"
  by (simp add: parse_inv_def)

lemma parsePlanText_shaped: "shaped (parsePlanText t)"
proof -
  obtain sections current orphanedLines where
    st: "foldl parse_line ([], None, []) (split_on 10 t) = (sections, current, orphanedLines)"
    by (cases "foldl parse_line ([], None, []) (split_on 10 t)")
  have inv: "parse_inv (sections, current, orphanedLines)"
    using parse_inv_foldl[OF parse_inv_init, of "split_on 10 t"] st by simp
  show ?thesis
  proof (cases current)
    case None
    then have "sections = []" using inv by (simp add: parse_inv_def)
    then show ?thesis
      using None st shaped_push_orphaned[of orphanedLines] by (simp add: parsePlanText_def push_current_def)
  next
    case (Some c)
    then have o: "orphanedLines = []" and c: "real_section c" and sh: "shaped sections"
      using inv by (simp_all add: parse_inv_def)
    show ?thesis
      using st Some o shaped_snoc[OF sh c] by (simp add: parsePlanText_def push_current_def)
  qed
qed

lemma trimEnd_Cons: "trimEnd (c # cs) = (if trimEnd cs = [] \<and> is_space c then [] else c # trimEnd cs)"
  by (auto simp: trimEnd_def dropWhile_append dropWhile_eq_Nil_conv)

lemma trimStart_trimEnd: "trimStart (trimEnd s) = trimEnd (trimStart s)"
proof (induction s)
  case Nil
  then show ?case by (simp add: trimStart_def trimEnd_def)
next
  case (Cons c cs)
  show ?case
  proof (cases "is_space c")
    case True
    then have "trimStart (c # cs) = trimStart cs" by (simp add: trimStart_def)
    moreover have "trimStart (trimEnd (c # cs)) = trimStart (trimEnd cs)"
      using True by (simp add: trimEnd_Cons) (simp add: trimStart_def)
    ultimately show ?thesis using Cons.IH by simp
  next
    case False
    then show ?thesis by (simp add: trimEnd_Cons trimStart_def)
  qed
qed

lemma trimEnd_idem: "trimEnd (trimEnd s) = trimEnd s"
  by (simp add: trimEnd_def)

lemma trim_trimEnd: "trim (trimEnd s) = trim s"
  by (simp add: trim_def trimStart_trimEnd trimEnd_idem)

lemma isIntroPhrase_trimEnd: "isIntroPhrase (trimEnd s) = isIntroPhrase s"
  by (simp add: isIntroPhrase_def trim_trimEnd)

lemma no_header_foldl:
  "\<forall>l \<in> set ls. rx_match header_rx (trimEnd l) = None \<Longrightarrow>
   foldl parse_line ([], None, orph) ls = ([], None, orph @ filter (\<lambda>l. trim l \<noteq> []) (map trimEnd ls))"
proof (induction ls arbitrary: orph)
  case Nil
  then show ?case by simp
next
  case (Cons l ls)
  then have h: "rx_match header_rx (trimEnd l) = None" by simp
  show ?case using Cons by (simp add: parse_line_plain[OF h])
qed

lemma meaningful_trimEnd:
  "meaningfulLines (filter (\<lambda>l. trim l \<noteq> []) (map trimEnd ls)) =
   map trimEnd (filter (\<lambda>l. trim l \<noteq> [] \<and> \<not> isIntroPhrase l) ls)"
  by (induction ls) (auto simp: meaningfulLines_def trim_trimEnd isIntroPhrase_trimEnd)


text \<open>
  C8 (as amended): in the list that \<^verbatim>\<open>parsePlanText\<close> returns, an orphaned section can only be
  the first element (so there is at most one), and it has the number \<^verbatim>\<open>"0"\<close> and the title
  \<^verbatim>\<open>"Additional Notes"\<close>; the number of every other section is one ASCII digit, any of
  \<^verbatim>\<open>"0"\<close> to \<^verbatim>\<open>"9"\<close>.
\<close>

theorem sections_shape:
  "(\<forall>i < length (parsePlanText t). isOrphaned (parsePlanText t ! i) \<longrightarrow>
       i = 0 \<and> number (parsePlanText t ! i) = js ''0'' \<and>
       title (parsePlanText t ! i) = js ''Additional Notes'') \<and>
   (\<forall>s \<in> set (parsePlanText t). \<not> isOrphaned s \<longrightarrow> (\<exists>d. is_digit d \<and> number s = [d]))"
proof (cases "parsePlanText t")
  case Nil
  then show ?thesis by simp
next
  case (Cons s ss)
  have sh: "shaped (s # ss)" using parsePlanText_shaped[of t] Cons by simp
  then have rest: "\<forall>x \<in> set ss. real_section x" by simp
  have first: "isOrphaned s \<longrightarrow> number s = js ''0'' \<and> title s = js ''Additional Notes''"
    using sh by (auto simp: real_section_def orphaned_section_def)
  have later: "\<And>i. i < length (s # ss) \<Longrightarrow> isOrphaned ((s # ss) ! i) \<Longrightarrow> i = 0"
  proof -
    fix i assume i: "i < length (s # ss)" and o: "isOrphaned ((s # ss) ! i)"
    show "i = 0"
    proof (rule ccontr)
      assume "i \<noteq> 0"
      then obtain j where j: "i = Suc j" by (cases i) auto
      then have "ss ! j \<in> set ss" using i by simp
      then have "real_section (ss ! j)" using rest by blast
      then show False using o j by (simp add: real_section_def)
    qed
  qed
  have digits: "\<forall>x \<in> set (s # ss). \<not> isOrphaned x \<longrightarrow> (\<exists>d. is_digit d \<and> number x = [d])"
    using sh by (auto simp: real_section_def orphaned_section_def)
  show ?thesis unfolding Cons using first later digits by (metis nth_Cons_0)
qed

theorem sections_shape_witness:
  "0 < length (parsePlanText (js ''note\<newline>7. A'')) \<and>
   isOrphaned (parsePlanText (js ''note\<newline>7. A'') ! 0) \<and>
   number (parsePlanText (js ''note\<newline>7. A'') ! 0) = js ''0'' \<and>
   title (parsePlanText (js ''note\<newline>7. A'') ! 0) = js ''Additional Notes'' \<and>
   parsePlanText (js ''note\<newline>7. A'') ! 1 \<in> set (parsePlanText (js ''note\<newline>7. A'')) \<and>
   \<not> isOrphaned (parsePlanText (js ''note\<newline>7. A'') ! 1) \<and>
   (\<exists>d. is_digit d \<and> number (parsePlanText (js ''note\<newline>7. A'') ! 1) = [d])"
proof -
  have ev: "parsePlanText (js ''note\<newline>7. A'') =
      [\<lparr>number = js ''0'', title = js ''Additional Notes'', description = [],
        lines = [js ''note''], isOrphaned = True\<rparr>,
       \<lparr>number = js ''7'', title = js ''A'', description = [], lines = [], isOrphaned = False\<rparr>]"
    by (simp add: eval_defs parse_defs)
  show ?thesis using sections_shape[of "js ''note\<newline>7. A''"] unfolding ev by simp
qed

text \<open>
  The header pattern accepts every digit: the lines \<^verbatim>\<open>"0. Notes"\<close> and \<^verbatim>\<open>"9. Notes"\<close> give sections
  that are not orphaned with the numbers \<^verbatim>\<open>"0"\<close> and \<^verbatim>\<open>"9"\<close>.
\<close>

theorem header_digit_counterexample:
  "parsePlanText (js ''0. Notes'') =
     [\<lparr>number = js ''0'', title = js ''Notes'', description = [], lines = [], isOrphaned = False\<rparr>] \<and>
   parsePlanText (js ''9. Notes'') =
     [\<lparr>number = js ''9'', title = js ''Notes'', description = [], lines = [], isOrphaned = False\<rparr>]"
  by (simp add: eval_defs parse_defs)

section \<open>The Goals and Key Actions renderers: the list items\<close>

lemma join_Nil_concat: "join [] xs = concat xs"
  by (induction xs rule: induct_list012) simp_all

lemma candidate_nonempty: "c \<in> set (candidate_lines ls) \<Longrightarrow> c \<noteq> []"
  by (auto simp: candidate_lines_def)

lemma take3: "3 \<le> length xs \<Longrightarrow> take 3 xs = [xs ! 0, xs ! 1, xs ! 2]"
proof -
  assume "3 \<le> length xs"
  then obtain a b c r where "xs = a # b # c # r"
    by (cases xs; cases "tl xs"; cases "tl (tl xs)") auto
  then show ?thesis by (simp add: numeral_3_eq_3)
qed

lemma final_three:
  "3 \<le> length (candidate_lines ls) \<Longrightarrow>
   filter (\<lambda>g. length g > 0) (take 3 (candidate_lines ls)) =
     [candidate_lines ls ! 0, candidate_lines ls ! 1, candidate_lines ls ! 2]"
proof -
  assume len: "3 \<le> length (candidate_lines ls)"
  have "\<forall>g \<in> set (take 3 (candidate_lines ls)). length g > 0"
    using candidate_nonempty by (auto dest: in_set_takeD)
  then have "filter (\<lambda>g. length g > 0) (take 3 (candidate_lines ls)) = take 3 (candidate_lines ls)"
    by (simp add: filter_id_conv)
  then show ?thesis using take3[OF len] by simp
qed

lemma dropWhile_absorb:
  "(\<And>x. P x \<Longrightarrow> Q x) \<Longrightarrow> dropWhile Q (dropWhile P s) = dropWhile Q s"
  by (induction s) auto

lemma stripR_Cons:
  "rev (dropWhile P (rev (c # cs))) =
     (if rev (dropWhile P (rev cs)) = [] \<and> P c then [] else c # rev (dropWhile P (rev cs)))"
  by (auto simp: dropWhile_append dropWhile_eq_Nil_conv)

lemma strip_commute:
  assumes "\<And>x. P x \<Longrightarrow> Q x"
  shows "dropWhile Q (rev (dropWhile P (rev s))) = rev (dropWhile P (rev (dropWhile Q s)))"
proof (induction s)
  case Nil
  then show ?case by simp
next
  case (Cons c cs)
  show ?case
  proof (cases "Q c")
    case True
    have "dropWhile Q (rev (dropWhile P (rev (c # cs)))) = dropWhile Q (rev (dropWhile P (rev cs)))"
    proof (cases "rev (dropWhile P (rev cs)) = [] \<and> P c")
      case yes: True
      then have e: "rev (dropWhile P (rev cs)) = []" by blast
      show ?thesis unfolding stripR_Cons e using yes by simp
    next
      case no: False
      then show ?thesis unfolding stripR_Cons using True by auto
    qed
    then show ?thesis using True Cons.IH by simp
  next
    case False
    then have "\<not> P c" using assms by blast
    then have e: "rev (dropWhile P (rev (c # cs))) = c # rev (dropWhile P (rev cs))"
      by (simp only: stripR_Cons) simp
    have r: "dropWhile Q (c # cs) = c # cs" using False by simp
    show ?thesis unfolding r e using False by simp
  qed
qed

lemma strip_comma_space_trim: "strip_comma_space (trim s) = strip_comma_space s"
proof -
  have sub: "\<And>x. is_space x \<Longrightarrow> is_comma_space x" by (simp add: is_comma_space_def)
  have "dropWhile is_comma_space (trim s) =
        dropWhile is_comma_space (rev (dropWhile is_space (rev (dropWhile is_space s))))"
    by (simp add: trim_def trimEnd_def trimStart_def)
  also have "\<dots> = rev (dropWhile is_space (rev (dropWhile is_comma_space (dropWhile is_space s))))"
    by (rule strip_commute[OF sub])
  also have "\<dots> = rev (dropWhile is_space (rev (dropWhile is_comma_space s)))"
    by (simp only: dropWhile_absorb[OF sub])
  finally have l: "dropWhile is_comma_space (trim s) =
      rev (dropWhile is_space (rev (dropWhile is_comma_space s)))" .
  have "strip_comma_space (trim s) =
      rev (dropWhile is_comma_space (dropWhile is_space (rev (dropWhile is_comma_space s))))"
    unfolding strip_comma_space_def l by simp
  also have "\<dots> = rev (dropWhile is_comma_space (rev (dropWhile is_comma_space s)))"
    by (simp only: dropWhile_absorb[OF sub])
  finally show ?thesis by (simp add: strip_comma_space_def)
qed

lemma trim_decomp: "\<exists>w1 w2. s = w1 @ trim s @ w2 \<and> list_all is_space w1 \<and> list_all is_space w2"
proof -
  let ?a = "takeWhile is_space s" and ?m = "dropWhile is_space s"
  let ?b = "rev (takeWhile is_space (rev ?m))"
  have 1: "s = ?a @ ?m" by simp
  have "rev ?m = takeWhile is_space (rev ?m) @ dropWhile is_space (rev ?m)" by simp
  then have "?m = rev (dropWhile is_space (rev ?m)) @ ?b"
    by (metis rev_append rev_rev_ident)
  then have 2: "?m = trim s @ ?b" by (simp add: trim_def trimEnd_def trimStart_def)
  have a: "list_all is_space ?a" by (simp add: list_all_iff) (meson set_takeWhileD)
  have b: "list_all is_space ?b" by (simp add: list_all_iff) (meson set_takeWhileD)
  have "s = ?a @ trim s @ ?b" using 1 2 by metis
  then show ?thesis using a b by blast
qed

lemma not_space_42: "\<not> is_space 42"
  by (simp add: is_space_def)

lemma set_trim_42: "42 \<in> set (trim s) \<longleftrightarrow> 42 \<in> set s"
proof -
  obtain w1 w2 where d: "s = w1 @ trim s @ w2" "list_all is_space w1" "list_all is_space w2"
    using trim_decomp by blast
  have "42 \<notin> set w1" "42 \<notin> set w2" using d(2,3) not_space_42 by (auto simp: list_all_iff)
  then show ?thesis using d(1) by (metis Un_iff set_append)
qed

lemma includes_singleton: "includes_js s [c] \<longleftrightarrow> c \<in> set s"
  by (induction s) (auto simp: startsWith_def)

lemma strip_comma_space_blank: "trim s = [] \<Longrightarrow> strip_comma_space s = []"
  using strip_comma_space_trim[of s] by (simp add: strip_comma_space_def)

lemma sentence_item_eq:
  "sentence_item f =
     (if f \<noteq> [] \<and> 42 \<notin> set f \<and> strip_comma_space f \<noteq> [] then [strip_comma_space f] else [])"
proof (cases "trim f = []")
  case True
  then show ?thesis by (simp add: sentence_item_def strip_comma_space_blank)
next
  case False
  then have "f \<noteq> []" by (auto simp: trim_def trimEnd_def trimStart_def)
  then show ?thesis using False
    by (simp add: sentence_item_def Let_def includes_singleton set_trim_42 strip_comma_space_trim)
qed

lemma fragments_eq:
  "concat (map sentence_item (filter (\<lambda>s. trim s \<noteq> []) fs)) =
   filter (\<lambda>item. item \<noteq> [])
     (map strip_comma_space (filter (\<lambda>fragment. fragment \<noteq> [] \<and> 42 \<notin> set fragment) fs))"
proof (induction fs)
  case Nil
  then show ?case by simp
next
  case (Cons f fs)
  show ?case
  proof (cases "trim f = []")
    case True
    then show ?thesis using Cons strip_comma_space_blank[of f] by simp
  next
    case False
    then show ?thesis using Cons sentence_item_eq[of f] by simp
  qed
qed

lemma sentence_items_spec: "sentence_items c = spec_sentence_items c"
  by (simp add: sentence_items_def spec_sentence_items_def fragments_eq)

lemma split_on_no_sep: "sep \<notin> set s \<Longrightarrow> split_on sep s = [s]"
  by (induction s) auto

lemma split_on_append: "sep \<notin> set a \<Longrightarrow> split_on sep (a @ sep # r) = a # split_on sep r"
  by (induction a) auto

lemmas render_eval = li_def escapeHtml_def replace_char_def candidate_lines_def

text \<open>
  C3: when a Goals or Key Actions section has at least three candidate lines, the list has
  exactly the first three of them as items, in their order, and the others are dropped; the
  Goals renderer writes an unordered list, the Key Actions renderer an ordered one.
\<close>

theorem first_three_items:
  assumes "3 \<le> length (candidate_lines (lines sec))"
  shows \<open>renderGoalsSection sec =
     js ''\<newline>      <section class="section">'' @
     js ''\<newline>        <h2><span class="num">'' @
     number sec @
     js ''.</span> '' @
     escapeHtml (title sec) @
     js ''</h2>'' @
     js ''\<newline>        <ul>'' @
     li (candidate_lines (lines sec) ! 0) @ li (candidate_lines (lines sec) ! 1) @ li (candidate_lines (lines sec) ! 2) @
     js ''</ul>'' @
     js ''\<newline>      </section>'' @
     js ''\<newline>    '' \<and>
   renderKeyActionsSection sec =
     js ''\<newline>      <section class="section">'' @
     js ''\<newline>        <h2><span class="num">'' @
     number sec @
     js ''.</span> '' @
     escapeHtml (title sec) @
     js ''</h2>'' @
     js ''\<newline>        <ol>'' @
     li (candidate_lines (lines sec) ! 0) @ li (candidate_lines (lines sec) ! 1) @ li (candidate_lines (lines sec) ! 2) @
     js ''</ol>'' @
     js ''\<newline>      </section>'' @
     js ''\<newline>    ''\<close>
  using assms final_three[OF assms]
  by (simp add: renderGoalsSection_def renderKeyActionsSection_def Let_def join_Nil_concat)

theorem first_three_items_witness:
  \<open>3 \<le> length (candidate_lines (lines (\<lparr>number = js ''3'', title = js ''Goals'', description = [], lines = [js ''Sleep well'', js ''* an aside'', js ''Walk daily'', 32 # 34 # js ''a quote'', [], js ''Lift 5kg  '', js ''Run 5k''], isOrphaned = False\<rparr>))) \<and>
   renderGoalsSection (\<lparr>number = js ''3'', title = js ''Goals'', description = [], lines = [js ''Sleep well'', js ''* an aside'', js ''Walk daily'', 32 # 34 # js ''a quote'', [], js ''Lift 5kg  '', js ''Run 5k''], isOrphaned = False\<rparr>) =
     js ''\<newline>      <section class="section">'' @
     js ''\<newline>        <h2><span class="num">'' @
     js ''3'' @
     js ''.</span> '' @
     js ''Goals'' @
     js ''</h2>'' @
     js ''\<newline>        <ul>'' @
     js ''<li>Sleep well</li><li>Walk daily</li><li>Lift 5kg</li>'' @
     js ''</ul>'' @
     js ''\<newline>      </section>'' @
     js ''\<newline>    '' \<and>
   renderKeyActionsSection (\<lparr>number = js ''3'', title = js ''Goals'', description = [], lines = [js ''Sleep well'', js ''* an aside'', js ''Walk daily'', 32 # 34 # js ''a quote'', [], js ''Lift 5kg  '', js ''Run 5k''], isOrphaned = False\<rparr>) =
     js ''\<newline>      <section class="section">'' @
     js ''\<newline>        <h2><span class="num">'' @
     js ''3'' @
     js ''.</span> '' @
     js ''Goals'' @
     js ''</h2>'' @
     js ''\<newline>        <ol>'' @
     js ''<li>Sleep well</li><li>Walk daily</li><li>Lift 5kg</li>'' @
     js ''</ol>'' @
     js ''\<newline>      </section>'' @
     js ''\<newline>    ''\<close>
proof -
  have c: "candidate_lines [js ''Sleep well'', js ''* an aside'', js ''Walk daily'', 32 # 34 # js ''a quote'', [],
             js ''Lift 5kg  '', js ''Run 5k''] =
           [js ''Sleep well'', js ''Walk daily'', js ''Lift 5kg'', js ''Run 5k'']"
    by (simp add: eval_defs candidate_lines_def)
  show ?thesis
    using first_three_items[of "\<lparr>number = js ''3'', title = js ''Goals'', description = [], lines = [js ''Sleep well'', js ''* an aside'', js ''Walk daily'', 32 # 34 # js ''a quote'', [], js ''Lift 5kg  '', js ''Run 5k''], isOrphaned = False\<rparr>"]
    by (simp add: c) (simp add: js_def render_eval)
qed

text \<open>
  C4 (as amended): the candidate lines of a Goals or Key Actions section are exactly the
  trimmed lines that are not empty and whose first character is neither the double quotation
  mark nor the asterisk; a line that starts with \<^verbatim>\<open>-\<close> or with the bullet U+2022 is a
  candidate like any other line.
\<close>

theorem candidate_filter:
  "candidate_lines ls = filter (\<lambda>t. t \<noteq> [] \<and> hd t \<noteq> 34 \<and> hd t \<noteq> 42) (map trim ls) \<and>
   (trim l \<noteq> [] \<longrightarrow> hd (trim l) = 45 \<or> hd (trim l) = 8226 \<longrightarrow>
      trim l \<in> set (candidate_lines (pre @ l # post)))"
proof -
  have p: "(t \<noteq> [] \<and> \<not> startsWith t [34] \<and> \<not> startsWith t [42]) = (t \<noteq> [] \<and> hd t \<noteq> 34 \<and> hd t \<noteq> 42)"
    for t :: jsstring
    by (cases t) (auto simp: startsWith_def)
  have e: "candidate_lines xs = filter (\<lambda>t. t \<noteq> [] \<and> hd t \<noteq> 34 \<and> hd t \<noteq> 42) (map trim xs)" for xs
    unfolding candidate_lines_def by (simp only: p)
  show ?thesis using e[of ls] by (auto simp: e)
qed

theorem candidate_filter_witness:
  "trim (js ''  - Stretch daily'') \<noteq> [] \<and> hd (trim (js ''  - Stretch daily'')) = 45 \<and>
   trim (js ''  - Stretch daily'') \<in> set (candidate_lines ([js ''* aside''] @ js ''  - Stretch daily'' # [[]])) \<and>
   candidate_lines ([js ''* aside''] @ js ''  - Stretch daily'' # [[]]) = [js ''- Stretch daily'']"
proof -
  have t: "trim (js ''  - Stretch daily'') = js ''- Stretch daily''"
    by (simp add: eval_defs)
  have c: "filter (\<lambda>t. t \<noteq> [] \<and> hd t \<noteq> 34 \<and> hd t \<noteq> 42)
             (map trim ([js ''* aside''] @ js ''  - Stretch daily'' # [[]])) = [js ''- Stretch daily'']"
    by (simp add: eval_defs)
  show ?thesis
    using candidate_filter[of "[js ''* aside''] @ js ''  - Stretch daily'' # [[]]" "js ''  - Stretch daily''"
        "[js ''* aside'']" "[[]]"]
    unfolding c t by (simp add: js_def)
qed

text \<open>
  Lines that start with \<^verbatim>\<open>-\<close> or with the bullet U+2022 are not excluded: both stay
  candidates.
\<close>

theorem dash_bullet_counterexample:
  "candidate_lines [js ''- Reduce pain'', 8226 # js '' Sleep better''] =
     [js ''- Reduce pain'', 8226 # js '' Sleep better'']"
  by (simp add: eval_defs candidate_lines_def)

text \<open>
  C5 (as amended): when a Goals or Key Actions section has one or two candidate lines, the
  items are those of the specification's sentence recovery (join with spaces, split at the
  period, drop the empty fragments and those with an asterisk, trim commas and white space,
  keep what is not empty), with no cap at three; a candidate line of two sentences, each
  ended by a period, gives these two items, and text after the second period gives a third
  item unless it has an asterisk or consists of commas and white space only.
\<close>

theorem sentence_fallback:
  \<open>(0 < length (candidate_lines (lines sec)) \<and> length (candidate_lines (lines sec)) < 3 \<longrightarrow>
      renderGoalsSection sec =
        js ''\<newline>    <section class="section">'' @
        js ''\<newline>      <h2><span class="num">'' @
        number sec @
        js ''.</span> '' @
        escapeHtml (title sec) @
        js ''</h2>'' @
        js ''\<newline>      <ul>'' @
        concat (map li (spec_sentence_items (candidate_lines (lines sec)))) @
        js ''</ul>'' @
        js ''\<newline>    </section>'' @
        js ''\<newline>  '' \<and>
      renderKeyActionsSection sec =
        js ''\<newline>    <section class="section">'' @
        js ''\<newline>      <h2><span class="num">'' @
        number sec @
        js ''.</span> '' @
        escapeHtml (title sec) @
        js ''</h2>'' @
        js ''\<newline>      <ol>'' @
        concat (map li (spec_sentence_items (candidate_lines (lines sec)))) @
        js ''</ol>'' @
        js ''\<newline>    </section>'' @
        js ''\<newline>  '') \<and>
   (46 \<notin> set a \<and> 46 \<notin> set b \<and> 46 \<notin> set r \<and> 42 \<notin> set a \<and> 42 \<notin> set b \<and>
    strip_comma_space a \<noteq> [] \<and> strip_comma_space b \<noteq> [] \<longrightarrow>
      spec_sentence_items [a @ [46] @ b @ [46] @ r] =
        [strip_comma_space a, strip_comma_space b] @
        (if 42 \<notin> set r \<and> strip_comma_space r \<noteq> [] then [strip_comma_space r] else []))\<close>
proof -
  have two: "46 \<notin> set a \<Longrightarrow> 46 \<notin> set b \<Longrightarrow> 46 \<notin> set r \<Longrightarrow>
      split_on 46 (a @ [46] @ b @ [46] @ r) = [a, b, r]"
    using split_on_append[of 46 a "b @ [46] @ r"] split_on_append[of 46 b r] split_on_no_sep[of 46 r]
    by simp
  have ne: "strip_comma_space x \<noteq> [] \<Longrightarrow> x \<noteq> []" for x
    by (auto simp: strip_comma_space_def)
  have ex: "46 \<notin> set a \<and> 46 \<notin> set b \<and> 46 \<notin> set r \<and> 42 \<notin> set a \<and> 42 \<notin> set b \<and>
    strip_comma_space a \<noteq> [] \<and> strip_comma_space b \<noteq> [] \<longrightarrow>
      spec_sentence_items [a @ [46] @ b @ [46] @ r] =
        [strip_comma_space a, strip_comma_space b] @
        (if 42 \<notin> set r \<and> strip_comma_space r \<noteq> [] then [strip_comma_space r] else [])"
    using two ne[of a] ne[of b] ne[of r] by (auto simp: spec_sentence_items_def)
  have rg: "0 < length (candidate_lines (lines sec)) \<and> length (candidate_lines (lines sec)) < 3 \<longrightarrow>
      renderGoalsSection sec =
        js ''\<newline>    <section class=\"section\">'' @
        js ''\<newline>      <h2><span class=\"num\">'' @
        number sec @
        js ''.</span> '' @
        escapeHtml (title sec) @
        js ''</h2>'' @
        js ''\<newline>      <ul>'' @
        concat (map li (spec_sentence_items (candidate_lines (lines sec)))) @
        js ''</ul>'' @
        js ''\<newline>    </section>'' @
        js ''\<newline>  ''"
    by (simp add: renderGoalsSection_def Let_def join_Nil_concat sentence_items_spec)
  have rk: "0 < length (candidate_lines (lines sec)) \<and> length (candidate_lines (lines sec)) < 3 \<longrightarrow>
      renderKeyActionsSection sec =
        js ''\<newline>    <section class=\"section\">'' @
        js ''\<newline>      <h2><span class=\"num\">'' @
        number sec @
        js ''.</span> '' @
        escapeHtml (title sec) @
        js ''</h2>'' @
        js ''\<newline>      <ol>'' @
        concat (map li (spec_sentence_items (candidate_lines (lines sec)))) @
        js ''</ol>'' @
        js ''\<newline>    </section>'' @
        js ''\<newline>  ''"
    by (simp add: renderKeyActionsSection_def Let_def join_Nil_concat sentence_items_spec)
  show ?thesis using ex rg rk by blast
qed

theorem sentence_fallback_witness:
  \<open>0 < length (candidate_lines (lines (\<lparr>number = js ''3'', title = js ''Goals'', description = [], lines = [js ''Reduce pain. Improve mobility.''], isOrphaned = False\<rparr>))) \<and>
   length (candidate_lines (lines (\<lparr>number = js ''3'', title = js ''Goals'', description = [], lines = [js ''Reduce pain. Improve mobility.''], isOrphaned = False\<rparr>))) < 3 \<and>
   renderGoalsSection (\<lparr>number = js ''3'', title = js ''Goals'', description = [], lines = [js ''Reduce pain. Improve mobility.''], isOrphaned = False\<rparr>) =
     js ''\<newline>    <section class="section">'' @
     js ''\<newline>      <h2><span class="num">'' @
     js ''3'' @
     js ''.</span> '' @
     js ''Goals'' @
     js ''</h2>'' @
     js ''\<newline>      <ul>'' @
     js ''<li>Reduce pain</li><li>Improve mobility</li>'' @
     js ''</ul>'' @
     js ''\<newline>    </section>'' @
     js ''\<newline>  '' \<and>
   renderKeyActionsSection (\<lparr>number = js ''3'', title = js ''Goals'', description = [], lines = [js ''Reduce pain. Improve mobility.''], isOrphaned = False\<rparr>) =
     js ''\<newline>    <section class="section">'' @
     js ''\<newline>      <h2><span class="num">'' @
     js ''3'' @
     js ''.</span> '' @
     js ''Goals'' @
     js ''</h2>'' @
     js ''\<newline>      <ol>'' @
     js ''<li>Reduce pain</li><li>Improve mobility</li>'' @
     js ''</ol>'' @
     js ''\<newline>    </section>'' @
     js ''\<newline>  '' \<and>
   46 \<notin> set (js ''Reduce pain'') \<and> 46 \<notin> set (js '' Improve mobility'') \<and> 46 \<notin> set ([]::jsstring) \<and>
   42 \<notin> set (js ''Reduce pain'') \<and> 42 \<notin> set (js '' Improve mobility'') \<and>
   strip_comma_space (js ''Reduce pain'') \<noteq> [] \<and> strip_comma_space (js '' Improve mobility'') \<noteq> [] \<and>
   spec_sentence_items [js ''Reduce pain. Improve mobility.''] = [js ''Reduce pain'', js ''Improve mobility'']\<close>
proof -
  have c: "candidate_lines [js ''Reduce pain. Improve mobility.''] = [js ''Reduce pain. Improve mobility.'']"
    by (simp add: eval_defs candidate_lines_def)
  have s: "strip_comma_space (js ''Reduce pain'') = js ''Reduce pain'' \<and>
           strip_comma_space (js '' Improve mobility'') = js ''Improve mobility'' \<and>
           strip_comma_space [] = []"
    by (simp add: js_def strip_comma_space_def is_comma_space_def is_space_def)
  have n: "46 \<notin> set (js ''Reduce pain'') \<and> 46 \<notin> set (js '' Improve mobility'') \<and>
           42 \<notin> set (js ''Reduce pain'') \<and> 42 \<notin> set (js '' Improve mobility'')"
    by (simp add: js_def)
  have l: "js ''Reduce pain'' @ [46] @ js '' Improve mobility'' @ [46] @ [] = js ''Reduce pain. Improve mobility.''"
    by (simp add: js_def)
  have i: "spec_sentence_items [js ''Reduce pain. Improve mobility.''] = [js ''Reduce pain'', js ''Improve mobility'']"
    using sentence_fallback[of sec "js ''Reduce pain''" "js '' Improve mobility''" "[]"] s n
    unfolding l by (simp add: js_def)
  show ?thesis
    using sentence_fallback[of "\<lparr>number = js ''3'', title = js ''Goals'', description = [], lines = [js ''Reduce pain. Improve mobility.''], isOrphaned = False\<rparr>"
        "js ''Reduce pain''" "js '' Improve mobility''" "[]"] s n
    unfolding l by (simp add: c i) (simp add: js_def render_eval)
qed

text \<open>
  One candidate line with two periods and text after the second one gives three items.
\<close>

theorem trailing_text_counterexample:
  \<open>candidate_lines (lines (\<lparr>number = js ''3'', title = js ''Goals'', description = [], lines = [js ''Reduce pain. Improve mobility. Sleep better''], isOrphaned = False\<rparr>)) = [js ''Reduce pain. Improve mobility. Sleep better''] \<and>
   renderGoalsSection (\<lparr>number = js ''3'', title = js ''Goals'', description = [], lines = [js ''Reduce pain. Improve mobility. Sleep better''], isOrphaned = False\<rparr>) =
     js ''\<newline>    <section class="section">'' @
     js ''\<newline>      <h2><span class="num">'' @
     js ''3'' @
     js ''.</span> '' @
     js ''Goals'' @
     js ''</h2>'' @
     js ''\<newline>      <ul>'' @
     js ''<li>Reduce pain</li><li>Improve mobility</li><li>Sleep better</li>'' @
     js ''</ul>'' @
     js ''\<newline>    </section>'' @
     js ''\<newline>  ''\<close>
proof -
  have c: "candidate_lines [js ''Reduce pain. Improve mobility. Sleep better''] =
           [js ''Reduce pain. Improve mobility. Sleep better'']"
    by (simp add: eval_defs candidate_lines_def)
  have i: "sentence_items [js ''Reduce pain. Improve mobility. Sleep better''] =
           [js ''Reduce pain'', js ''Improve mobility'', js ''Sleep better'']"
    by (simp add: eval_defs sentence_items_def sentence_item_def strip_comma_space_def is_comma_space_def)
  show ?thesis
    by (simp add: renderGoalsSection_def c i) (simp add: js_def render_eval)
qed

section \<open>The Treatment Plan renderer: phases and cards\<close>

lemma startsWith_iff: "startsWith s p \<longleftrightarrow> (\<exists>b. s = p @ b)"
proof
  assume "startsWith s p"
  then have "s = p @ drop (length p) s" unfolding startsWith_def by (metis append_take_drop_id)
  then show "\<exists>b. s = p @ b" ..
next
  assume "\<exists>b. s = p @ b"
  then show "startsWith s p" by (auto simp: startsWith_def)
qed

lemma includes_iff: "includes_js s p \<longleftrightarrow> (\<exists>a b. s = a @ p @ b)"
proof (induction s)
  case Nil
  then show ?case by simp
next
  case (Cons c cs)
  show ?case
  proof
    assume "includes_js (c # cs) p"
    then consider "startsWith (c # cs) p" | "includes_js cs p" by auto
    then show "\<exists>a b. c # cs = a @ p @ b"
    proof cases
      case 1
      then obtain b where "c # cs = [] @ p @ b" using startsWith_iff by auto
      then show ?thesis by blast
    next
      case 2
      then obtain a b where "cs = a @ p @ b" using Cons.IH by blast
      then have "c # cs = (c # a) @ p @ b" by simp
      then show ?thesis by blast
    qed
  next
    assume "\<exists>a b. c # cs = a @ p @ b"
    then obtain a b where ab: "c # cs = a @ p @ b" by blast
    show "includes_js (c # cs) p"
    proof (cases a)
      case Nil
      then have "startsWith (c # cs) p" using ab startsWith_iff by auto
      then show ?thesis by simp
    next
      case (Cons x a')
      then have "cs = a' @ p @ b" using ab by simp
      then have "includes_js cs p" using Cons.IH by blast
      then show ?thesis by simp
    qed
  qed
qed

lemma dropWhile_keeps_infix:
  "p \<noteq> [] \<Longrightarrow> \<not> P (hd p) \<Longrightarrow> \<exists>a'. dropWhile P (a @ p @ b) = a' @ p @ b"
proof (induction a)
  case Nil
  then have "dropWhile P (p @ b) = p @ b" by (cases p) auto
  then have "dropWhile P ([] @ p @ b) = [] @ p @ b" by simp
  then show ?case by blast
next
  case (Cons c a)
  show ?case
  proof (cases "P c")
    case True
    then show ?thesis using Cons by simp
  next
    case False
    then have "dropWhile P ((c # a) @ p @ b) = (c # a) @ p @ b" by simp
    then show ?thesis by blast
  qed
qed

lemma trim_keeps_infix:
  assumes "p \<noteq> []" "\<not> is_space (hd p)" "\<not> is_space (last p)"
  shows "\<exists>a' b'. trim (a @ p @ b) = a' @ p @ b'"
proof -
  obtain a' where 1: "trimStart (a @ p @ b) = a' @ p @ b"
    using dropWhile_keeps_infix[of p is_space a b] assms(1,2) unfolding trimStart_def by blast
  have "rev p \<noteq> []" "\<not> is_space (hd (rev p))" using assms by (simp_all add: hd_rev)
  then obtain b' where 2: "dropWhile is_space (rev b @ rev p @ rev a') = b' @ rev p @ rev a'"
    using dropWhile_keeps_infix[of "rev p" is_space "rev b" "rev a'"] by blast
  have "trim (a @ p @ b) = rev (dropWhile is_space (rev b @ rev p @ rev a'))"
    unfolding trim_def 1 trimEnd_def by simp
  then have "trim (a @ p @ b) = a' @ p @ rev b'" unfolding 2 by simp
  then show ?thesis by blast
qed

lemma trim_infix_of: "\<exists>w1 w2. s = w1 @ trim s @ w2"
proof -
  have "s = takeWhile is_space s @ dropWhile is_space s" by simp
  moreover have "dropWhile is_space s =
      rev (dropWhile is_space (rev (dropWhile is_space s))) @ rev (takeWhile is_space (rev (dropWhile is_space s)))"
    by (metis rev_append rev_rev_ident takeWhile_dropWhile_id)
  ultimately have "s = takeWhile is_space s @ trim s @ rev (takeWhile is_space (rev (dropWhile is_space s)))"
    unfolding trim_def trimEnd_def trimStart_def by metis
  then show ?thesis by blast
qed

lemma includes_trim:
  assumes "p \<noteq> []" "\<not> is_space (hd p)" "\<not> is_space (last p)"
  shows "includes_js (trim l) p \<longleftrightarrow> includes_js l p"
proof
  assume "includes_js (trim l) p"
  then obtain a b where ab: "trim l = a @ p @ b" using includes_iff by blast
  obtain w1 w2 where "l = w1 @ trim l @ w2" using trim_infix_of by blast
  then have "l = (w1 @ a) @ p @ (b @ w2)" using ab by simp
  then show "includes_js l p" using includes_iff by blast
next
  assume "includes_js l p"
  then obtain a b where "l = a @ p @ b" using includes_iff by blast
  then show "includes_js (trim l) p" using trim_keeps_infix[OF assms] includes_iff by metis
qed

lemma isPhaseHeader_trim:
  "isPhaseHeader (trim l) \<longleftrightarrow>
     includes_js l (js ''Getting You Comfortable'') \<or> includes_js l (js ''Keeping You at Your Best'')"
proof -
  have 1: "includes_js (trim l) (js ''Getting You Comfortable'') = includes_js l (js ''Getting You Comfortable'')"
    by (rule includes_trim) (simp_all add: js_def is_space_def)
  have 2: "includes_js (trim l) (js ''Keeping You at Your Best'') = includes_js l (js ''Keeping You at Your Best'')"
    by (rule includes_trim) (simp_all add: js_def is_space_def)
  show ?thesis unfolding isPhaseHeader_def 1 2 ..
qed

lemma phase_line_skip:
  "\<not> isPhaseHeader (trim l) \<Longrightarrow> phase_line (phases, None) l = (phases, None)"
  by (simp add: Let_def)

lemma phase_foldl_skip:
  "\<forall>l \<in> set pre. \<not> isPhaseHeader (trim l) \<Longrightarrow> foldl phase_line (phases, None) pre = (phases, None)"
  by (induction pre) (simp_all add: phase_line_skip)

lemma parse_phases_skip:
  "\<forall>l \<in> set pre. \<not> isPhaseHeader (trim l) \<Longrightarrow> parse_phases (pre @ rest) = parse_phases rest"
  by (simp add: parse_phases_def phase_foldl_skip)

lemma parse_phases_none:
  "\<forall>l \<in> set ls. \<not> isPhaseHeader (trim l) \<Longrightarrow> parse_phases ls = []"
  by (simp add: parse_phases_def phase_foldl_skip)

lemma trim_fixed: "s \<noteq> [] \<Longrightarrow> \<not> is_space (hd s) \<Longrightarrow> \<not> is_space (last s) \<Longrightarrow> trim s = s"
proof -
  assume s: "s \<noteq> []" and h: "\<not> is_space (hd s)" and l: "\<not> is_space (last s)"
  have 1: "trimStart s = s" using s h by (cases s) (simp_all add: trimStart_def)
  have "rev s \<noteq> []" "\<not> is_space (hd (rev s))" using s l by (simp_all add: hd_rev)
  then have "dropWhile is_space (rev s) = rev s" by (cases "rev s") simp_all
  then show ?thesis by (simp add: trim_def 1 trimEnd_def)
qed

lemma trimEnd_last: "trimEnd s \<noteq> [] \<Longrightarrow> \<not> is_space (last (trimEnd s))"
proof -
  assume ne: "trimEnd s \<noteq> []"
  then have "dropWhile is_space (rev s) \<noteq> []" by (simp add: trimEnd_def)
  then have "\<not> is_space (hd (dropWhile is_space (rev s)))" by (rule hd_dropWhile)
  then show ?thesis using ne by (simp add: trimEnd_def last_rev)
qed

lemma trimStart_hd: "trimStart s \<noteq> [] \<Longrightarrow> \<not> is_space (hd (trimStart s))"
  unfolding trimStart_def by (rule hd_dropWhile)

lemma trim_hd_last: "trim s \<noteq> [] \<Longrightarrow> \<not> is_space (hd (trim s)) \<and> \<not> is_space (last (trim s))"
proof -
  assume ne: "trim s \<noteq> []"
  have l: "\<not> is_space (last (trim s))" using ne trimEnd_last unfolding trim_def by blast
  have "trim s = trimStart (trimEnd s)" by (simp add: trim_def trimStart_trimEnd)
  then have "\<not> is_space (hd (trim s))" using ne trimStart_hd by metis
  then show ?thesis using l by simp
qed

lemma join_hd_last:
  "xs \<noteq> [] \<Longrightarrow> \<forall>x \<in> set xs. x \<noteq> [] \<Longrightarrow>
   join sep xs \<noteq> [] \<and> hd (join sep xs) = hd (hd xs) \<and> last (join sep xs) = last (last xs)"
proof (induction sep xs rule: join.induct)
  case (1 sep)
  then show ?case by simp
next
  case (2 sep x)
  then show ?case by simp
next
  case (3 sep x y ys)
  then have "join sep (y # ys) \<noteq> [] \<and> last (join sep (y # ys)) = last (last (y # ys))" by simp
  then show ?case using 3 by simp
qed

lemma trim_join_content: "trim (join sep (phase_body_content body)) = join sep (phase_body_content body)"
proof (cases "phase_body_content body = []")
  case True
  then show ?thesis by (simp add: trim_def trimEnd_def trimStart_def)
next
  case False
  let ?c = "phase_body_content body"
  have el: "\<forall>x \<in> set ?c. x \<noteq> [] \<and> \<not> is_space (hd x) \<and> \<not> is_space (last x)"
    using trim_hd_last by (auto simp: phase_body_content_def)
  then have ne: "\<forall>x \<in> set ?c. x \<noteq> []" by blast
  have j: "join sep ?c \<noteq> [] \<and> hd (join sep ?c) = hd (hd ?c) \<and> last (join sep ?c) = last (last ?c)"
    using join_hd_last[OF False ne] .
  have "hd ?c \<in> set ?c" "last ?c \<in> set ?c" using False by simp_all
  then have "\<not> is_space (hd (hd ?c))" "\<not> is_space (last (last ?c))" using el by blast+
  then show ?thesis using j trim_fixed by metis
qed

lemma phase_line_body:
  "phase_body_line l \<Longrightarrow>
   phase_line (phases, Some p) l =
     (phases, Some (p\<lparr>phase_content := phase_content p @ phase_body_content [l]\<rparr>))"
  by (simp add: phase_body_line_def phase_body_content_def Let_def)

lemma phase_body_content_Cons:
  "phase_body_content (l # body) = phase_body_content [l] @ phase_body_content body"
  by (simp add: phase_body_content_def)

lemma phase_foldl_body:
  "\<forall>l \<in> set body. phase_body_line l \<Longrightarrow>
   foldl phase_line (phases, Some p) body =
     (phases, Some (p\<lparr>phase_content := phase_content p @ phase_body_content body\<rparr>))"
proof (induction body arbitrary: p)
  case Nil
  then show ?case by (simp add: phase_body_content_def)
next
  case (Cons l body)
  let ?p = "p\<lparr>phase_content := phase_content p @ phase_body_content [l]\<rparr>"
  have l: "phase_body_line l" and rest: "\<forall>l \<in> set body. phase_body_line l" using Cons.prems by simp_all
  have "foldl phase_line (phases, Some p) (l # body) = foldl phase_line (phases, Some ?p) body"
    by (simp only: foldl_Cons phase_line_body[OF l])
  also have "\<dots> = (phases, Some (?p\<lparr>phase_content := phase_content ?p @ phase_body_content body\<rparr>))"
    by (rule Cons.IH[OF rest])
  finally show ?case by (simp add: phase_body_content_Cons[of l body])
qed

lemma phase_line_acute:
  "phase_line (phases, cur) (js ''**Getting You Comfortable** (Acute Phase, 2-4 weeks):'') =
     ((case cur of None \<Rightarrow> phases | Some p \<Rightarrow> phases @ [p]),
      Some \<lparr>phase_title = js ''Getting You Comfortable'', phase_subtitle = js ''Acute Phase, 2-4 weeks'',
            phase_content = [], phase_recommended = []\<rparr>)"
  by (simp add: eval_defs isPhaseHeader_def new_phase_def phase_header_rx_def)

lemma phase_line_maintenance:
  "phase_line (phases, cur) (js ''**Keeping You at Your Best** (Maintenance, Ongoing):'') =
     ((case cur of None \<Rightarrow> phases | Some p \<Rightarrow> phases @ [p]),
      Some \<lparr>phase_title = js ''Keeping You at Your Best'', phase_subtitle = js ''Maintenance, Ongoing'',
            phase_content = [], phase_recommended = []\<rparr>)"
  by (simp add: eval_defs isPhaseHeader_def new_phase_def phase_header_rx_def)

lemma phase_line_recommended:
  "phase_line (phases, Some p) (js ''Recommended: 2x/week'') =
     (phases, Some (p\<lparr>phase_recommended := js ''2x/week''\<rparr>))"
  by (simp add: eval_defs isPhaseHeader_def recommended_rx_def)

lemma js_Cons_nonempty: "js (c # s) \<noteq> []"
  by (simp add: js_def)

lemma js_merge: "js a @ js b = js (a @ b)" "js a @ js b @ c = js (a @ b) @ c"
  by (simp_all add: js_def)

lemma escapeHtml_literals:
  "escapeHtml (js ''Getting You Comfortable'') = js ''Getting You Comfortable''"
  "escapeHtml (js ''Acute Phase, 2-4 weeks'') = js ''Acute Phase, 2-4 weeks''"
  "escapeHtml (js ''Keeping You at Your Best'') = js ''Keeping You at Your Best''"
  "escapeHtml (js ''Maintenance, Ongoing'') = js ''Maintenance, Ongoing''"
  "escapeHtml (js ''2x/week'') = js ''2x/week''"
  by (simp_all add: js_def escapeHtml_def replace_char_def)

lemma phase_card_full:
  \<open>s \<noteq> [] \<Longrightarrow> r \<noteq> [] \<Longrightarrow>
   phase_card \<lparr>phase_title = t, phase_subtitle = s, phase_content = c, phase_recommended = r\<rparr> =
      js ''\<newline>      <div class="treatment-phase-card">'' @
      js ''\<newline>        <div class="treatment-phase-header">'' @
      js ''\<newline>          <span class="treatment-phase-title">'' @
      escapeHtml t @
      js ''</span>'' @
      js ''\<newline>          <span class="treatment-phase-subtitle">('' @
      escapeHtml s @
      js '')</span>'' @
      js ''\<newline>        </div>'' @
      js ''\<newline>        <div class="treatment-phase-content">'' @
      js ''\<newline>          <p>'' @
      escapeHtml (trim (join (js '' '') c)) @
      js ''</p>'' @
      js ''\<newline>        </div>'' @
      js ''\<newline>        '' @
      js ''\<newline>        <div class="treatment-phase-recommended">'' @
      js ''\<newline>          <strong>Recommended:</strong> '' @
      escapeHtml r @
      js ''\<newline>        </div>'' @
      js ''\<newline>        '' @
      js ''\<newline>      </div>'' @
      js ''\<newline>    ''\<close>
  by (simp add: phase_card_def Let_def js_merge)

lemma phase_foldl_blank:
  assumes "\<forall>l \<in> set gap. trim l = []"
  shows "foldl phase_line (phases, Some p) gap = (phases, Some p)"
proof -
  have e: "trim [] = []" by (simp add: trim_def trimEnd_def trimStart_def)
  have n: "rx_match recommended_rx [] = None"
    by (simp add: recommended_rx_def seqs_def rx_match_def js_def)
  have h: "\<not> isPhaseHeader []" by (simp add: isPhaseHeader_def js_def)
  have b: "\<forall>l \<in> set gap. phase_body_line l"
    using assms n h by (simp add: phase_body_line_def)
  have "phase_body_content gap = []"
    using assms by (simp add: phase_body_content_def filter_empty_conv)
  then show ?thesis using phase_foldl_body[OF b, of phases p] by simp
qed

lemma two_phases_parse:
  assumes "\<forall>l \<in> set pre. \<not> isPhaseHeader (trim l)"
    and "\<forall>l \<in> set body1. phase_body_line l" and "\<forall>l \<in> set body2. phase_body_line l"
    and "\<forall>l \<in> set gap1. trim l = []" and "\<forall>l \<in> set gap2. trim l = []"
  shows "parse_phases (pre @ [js ''**Getting You Comfortable** (Acute Phase, 2-4 weeks):''] @ body1 @ [js ''Recommended: 2x/week''] @ gap1 @
                [js ''**Keeping You at Your Best** (Maintenance, Ongoing):''] @ body2 @ [js ''Recommended: 2x/week''] @ gap2) =
      [\<lparr>phase_title = js ''Getting You Comfortable'', phase_subtitle = js ''Acute Phase, 2-4 weeks'',
        phase_content = phase_body_content body1, phase_recommended = js ''2x/week''\<rparr>,
       \<lparr>phase_title = js ''Keeping You at Your Best'', phase_subtitle = js ''Maintenance, Ongoing'',
        phase_content = phase_body_content body2, phase_recommended = js ''2x/week''\<rparr>]"
  unfolding parse_phases_def
  by (simp add: phase_foldl_skip[OF assms(1)] phase_line_acute phase_line_maintenance
      phase_line_recommended phase_foldl_body[OF assms(2)] phase_foldl_body[OF assms(3)]
      phase_foldl_blank[OF assms(4)] phase_foldl_blank[OF assms(5)]
      del: phase_line.simps)

text \<open>
  C6 (as amended): when the lines of a Treatment Plan section are, after lines without the
  name of a phase, the header \<^verbatim>\<open>**Getting You Comfortable** (Acute Phase, 2-4 weeks):\<close>, body
  lines, the line \<^verbatim>\<open>Recommended: 2x/week\<close> and blank lines, then the header
  \<^verbatim>\<open>**Keeping You at Your Best** (Maintenance, Ongoing):\<close>, body lines, \<^verbatim>\<open>Recommended: 2x/week\<close>
  and blank lines, where no body line has the name of a phase in it or is itself a
  \<^verbatim>\<open>Recommended:\<close> line, the renderer finds exactly these two phases, in this order, and
  writes one card for each: the text between the asterisks is the title, the text in
  parentheses the subtitle, \<^verbatim>\<open>2x/week\<close> the recommended text, and the paragraph is made of the
  trimmed body lines that are not blank and do not start with two asterisks, joined by
  single spaces.
\<close>

theorem two_phase_cards:
  assumes "\<forall>l \<in> set pre. \<not> isPhaseHeader (trim l)"
    and "\<forall>l \<in> set body1. phase_body_line l" and "\<forall>l \<in> set body2. phase_body_line l"
    and "\<forall>l \<in> set gap1. trim l = []" and "\<forall>l \<in> set gap2. trim l = []"
    and "lines sec = pre @ [js ''**Getting You Comfortable** (Acute Phase, 2-4 weeks):''] @ body1 @ [js ''Recommended: 2x/week''] @ gap1 @
                [js ''**Keeping You at Your Best** (Maintenance, Ongoing):''] @ body2 @ [js ''Recommended: 2x/week''] @ gap2"
  shows \<open>parse_phases (lines sec) =
      [\<lparr>phase_title = js ''Getting You Comfortable'', phase_subtitle = js ''Acute Phase, 2-4 weeks'',
        phase_content = phase_body_content body1, phase_recommended = js ''2x/week''\<rparr>,
       \<lparr>phase_title = js ''Keeping You at Your Best'', phase_subtitle = js ''Maintenance, Ongoing'',
        phase_content = phase_body_content body2, phase_recommended = js ''2x/week''\<rparr>] \<and>
    renderTreatmentPlanSection sec =
      js ''\<newline>    <section class="section treatment-plan-section">'' @
      js ''\<newline>      <h2><span class="num">'' @
      number sec @
      js ''.</span> '' @
      escapeHtml (title sec) @
      js ''</h2>'' @
      js ''\<newline>  '' @
      js ''\<newline>      <div class="treatment-phase-card">'' @
      js ''\<newline>        <div class="treatment-phase-header">'' @
      js ''\<newline>          <span class="treatment-phase-title">'' @
      js ''Getting You Comfortable'' @
      js ''</span>'' @
      js ''\<newline>          <span class="treatment-phase-subtitle">('' @
      js ''Acute Phase, 2-4 weeks'' @
      js '')</span>'' @
      js ''\<newline>        </div>'' @
      js ''\<newline>        <div class="treatment-phase-content">'' @
      js ''\<newline>          <p>'' @
      escapeHtml (join (js '' '') (phase_body_content body1)) @
      js ''</p>'' @
      js ''\<newline>        </div>'' @
      js ''\<newline>        '' @
      js ''\<newline>        <div class="treatment-phase-recommended">'' @
      js ''\<newline>          <strong>Recommended:</strong> '' @
      js ''2x/week'' @
      js ''\<newline>        </div>'' @
      js ''\<newline>        '' @
      js ''\<newline>      </div>'' @
      js ''\<newline>    '' @
      js ''\<newline>      <div class="treatment-phase-card">'' @
      js ''\<newline>        <div class="treatment-phase-header">'' @
      js ''\<newline>          <span class="treatment-phase-title">'' @
      js ''Keeping You at Your Best'' @
      js ''</span>'' @
      js ''\<newline>          <span class="treatment-phase-subtitle">('' @
      js ''Maintenance, Ongoing'' @
      js '')</span>'' @
      js ''\<newline>        </div>'' @
      js ''\<newline>        <div class="treatment-phase-content">'' @
      js ''\<newline>          <p>'' @
      escapeHtml (join (js '' '') (phase_body_content body2)) @
      js ''</p>'' @
      js ''\<newline>        </div>'' @
      js ''\<newline>        '' @
      js ''\<newline>        <div class="treatment-phase-recommended">'' @
      js ''\<newline>          <strong>Recommended:</strong> '' @
      js ''2x/week'' @
      js ''\<newline>        </div>'' @
      js ''\<newline>        '' @
      js ''\<newline>      </div>'' @
      js ''\<newline>    '' @
      js ''\<newline>    </section>'' @
      js ''\<newline>  ''\<close>
proof -
  have p: "parse_phases (lines sec) =
      [\<lparr>phase_title = js ''Getting You Comfortable'', phase_subtitle = js ''Acute Phase, 2-4 weeks'',
        phase_content = phase_body_content body1, phase_recommended = js ''2x/week''\<rparr>,
       \<lparr>phase_title = js ''Keeping You at Your Best'', phase_subtitle = js ''Maintenance, Ongoing'',
        phase_content = phase_body_content body2, phase_recommended = js ''2x/week''\<rparr>]"
    unfolding assms(6) by (rule two_phases_parse[OF assms(1,2,3,4,5)])
  have c1: \<open>phase_card \<lparr>phase_title = js ''Getting You Comfortable'', phase_subtitle = js ''Acute Phase, 2-4 weeks'',
        phase_content = phase_body_content body1, phase_recommended = js ''2x/week''\<rparr> =
      js ''\<newline>      <div class="treatment-phase-card">'' @
      js ''\<newline>        <div class="treatment-phase-header">'' @
      js ''\<newline>          <span class="treatment-phase-title">'' @
      js ''Getting You Comfortable'' @
      js ''</span>'' @
      js ''\<newline>          <span class="treatment-phase-subtitle">('' @
      js ''Acute Phase, 2-4 weeks'' @
      js '')</span>'' @
      js ''\<newline>        </div>'' @
      js ''\<newline>        <div class="treatment-phase-content">'' @
      js ''\<newline>          <p>'' @
      escapeHtml (join (js '' '') (phase_body_content body1)) @
      js ''</p>'' @
      js ''\<newline>        </div>'' @
      js ''\<newline>        '' @
      js ''\<newline>        <div class="treatment-phase-recommended">'' @
      js ''\<newline>          <strong>Recommended:</strong> '' @
      js ''2x/week'' @
      js ''\<newline>        </div>'' @
      js ''\<newline>        '' @
      js ''\<newline>      </div>'' @
      js ''\<newline>    ''\<close>
    by (simp only: phase_card_full[OF js_Cons_nonempty js_Cons_nonempty] escapeHtml_literals trim_join_content)
  have c2: \<open>phase_card \<lparr>phase_title = js ''Keeping You at Your Best'', phase_subtitle = js ''Maintenance, Ongoing'',
        phase_content = phase_body_content body2, phase_recommended = js ''2x/week''\<rparr> =
      js ''\<newline>      <div class="treatment-phase-card">'' @
      js ''\<newline>        <div class="treatment-phase-header">'' @
      js ''\<newline>          <span class="treatment-phase-title">'' @
      js ''Keeping You at Your Best'' @
      js ''</span>'' @
      js ''\<newline>          <span class="treatment-phase-subtitle">('' @
      js ''Maintenance, Ongoing'' @
      js '')</span>'' @
      js ''\<newline>        </div>'' @
      js ''\<newline>        <div class="treatment-phase-content">'' @
      js ''\<newline>          <p>'' @
      escapeHtml (join (js '' '') (phase_body_content body2)) @
      js ''</p>'' @
      js ''\<newline>        </div>'' @
      js ''\<newline>        '' @
      js ''\<newline>        <div class="treatment-phase-recommended">'' @
      js ''\<newline>          <strong>Recommended:</strong> '' @
      js ''2x/week'' @
      js ''\<newline>        </div>'' @
      js ''\<newline>        '' @
      js ''\<newline>      </div>'' @
      js ''\<newline>    ''\<close>
    by (simp only: phase_card_full[OF js_Cons_nonempty js_Cons_nonempty] escapeHtml_literals trim_join_content)
  show ?thesis
    unfolding renderTreatmentPlanSection_def Let_def p
    by (simp only: foldl_Cons foldl_Nil c1 c2 append_assoc simp_thms)
qed

theorem two_phase_cards_witness:
  \<open>\<not> isPhaseHeader (trim (js ''Overview of the plan'')) \<and>
   phase_body_line (js ''We ease the neck first.'') \<and>
   phase_body_line (js ''  Then the shoulders. '') \<and> phase_body_line [] \<and>
   phase_body_line (js ''Monthly sessions keep it so.'') \<and> trim [] = ([]::jsstring) \<and>
   parse_phases (lines (\<lparr>number = js ''5'', title = js ''Treatment Plan'', description = js ''Overview of the plan'',
       lines = [js ''Overview of the plan''] @ [js ''**Getting You Comfortable** (Acute Phase, 2-4 weeks):''] @ [js ''We ease the neck first.'', js ''  Then the shoulders. '', []] @ [js ''Recommended: 2x/week''] @ [[]] @
                [js ''**Keeping You at Your Best** (Maintenance, Ongoing):''] @ [js ''Monthly sessions keep it so.''] @ [js ''Recommended: 2x/week''] @ [],
       isOrphaned = False\<rparr>)) =
      [\<lparr>phase_title = js ''Getting You Comfortable'', phase_subtitle = js ''Acute Phase, 2-4 weeks'',
        phase_content = [js ''We ease the neck first.'', js ''Then the shoulders.''], phase_recommended = js ''2x/week''\<rparr>,
       \<lparr>phase_title = js ''Keeping You at Your Best'', phase_subtitle = js ''Maintenance, Ongoing'',
        phase_content = [js ''Monthly sessions keep it so.''], phase_recommended = js ''2x/week''\<rparr>] \<and>
   renderTreatmentPlanSection (\<lparr>number = js ''5'', title = js ''Treatment Plan'', description = js ''Overview of the plan'',
       lines = [js ''Overview of the plan''] @ [js ''**Getting You Comfortable** (Acute Phase, 2-4 weeks):''] @ [js ''We ease the neck first.'', js ''  Then the shoulders. '', []] @ [js ''Recommended: 2x/week''] @ [[]] @
                [js ''**Keeping You at Your Best** (Maintenance, Ongoing):''] @ [js ''Monthly sessions keep it so.''] @ [js ''Recommended: 2x/week''] @ [],
       isOrphaned = False\<rparr>) =
      js ''\<newline>    <section class="section treatment-plan-section">'' @
      js ''\<newline>      <h2><span class="num">'' @
      js ''5'' @
      js ''.</span> '' @
      js ''Treatment Plan'' @
      js ''</h2>'' @
      js ''\<newline>  '' @
      js ''\<newline>      <div class="treatment-phase-card">'' @
      js ''\<newline>        <div class="treatment-phase-header">'' @
      js ''\<newline>          <span class="treatment-phase-title">'' @
      js ''Getting You Comfortable'' @
      js ''</span>'' @
      js ''\<newline>          <span class="treatment-phase-subtitle">('' @
      js ''Acute Phase, 2-4 weeks'' @
      js '')</span>'' @
      js ''\<newline>        </div>'' @
      js ''\<newline>        <div class="treatment-phase-content">'' @
      js ''\<newline>          <p>'' @
      js ''We ease the neck first. Then the shoulders.'' @
      js ''</p>'' @
      js ''\<newline>        </div>'' @
      js ''\<newline>        '' @
      js ''\<newline>        <div class="treatment-phase-recommended">'' @
      js ''\<newline>          <strong>Recommended:</strong> '' @
      js ''2x/week'' @
      js ''\<newline>        </div>'' @
      js ''\<newline>        '' @
      js ''\<newline>      </div>'' @
      js ''\<newline>    '' @
      js ''\<newline>      <div class="treatment-phase-card">'' @
      js ''\<newline>        <div class="treatment-phase-header">'' @
      js ''\<newline>          <span class="treatment-phase-title">'' @
      js ''Keeping You at Your Best'' @
      js ''</span>'' @
      js ''\<newline>          <span class="treatment-phase-subtitle">('' @
      js ''Maintenance, Ongoing'' @
      js '')</span>'' @
      js ''\<newline>        </div>'' @
      js ''\<newline>        <div class="treatment-phase-content">'' @
      js ''\<newline>          <p>'' @
      js ''Monthly sessions keep it so.'' @
      js ''</p>'' @
      js ''\<newline>        </div>'' @
      js ''\<newline>        '' @
      js ''\<newline>        <div class="treatment-phase-recommended">'' @
      js ''\<newline>          <strong>Recommended:</strong> '' @
      js ''2x/week'' @
      js ''\<newline>        </div>'' @
      js ''\<newline>        '' @
      js ''\<newline>      </div>'' @
      js ''\<newline>    '' @
      js ''\<newline>    </section>'' @
      js ''\<newline>  ''\<close>
proof -
  have h0: "\<forall>l \<in> set [js ''Overview of the plan'']. \<not> isPhaseHeader (trim l)"
    by (simp add: eval_defs isPhaseHeader_def)
  have h1: "\<forall>l \<in> set [js ''We ease the neck first.'', js ''  Then the shoulders. '', []]. phase_body_line l"
    by (simp add: eval_defs phase_body_line_def isPhaseHeader_def recommended_rx_def)
  have h2: "\<forall>l \<in> set [js ''Monthly sessions keep it so.'']. phase_body_line l"
    by (simp add: eval_defs phase_body_line_def isPhaseHeader_def recommended_rx_def)
  have g1: "\<forall>l \<in> set [[]]. trim l = ([]::jsstring)"
    by (simp add: eval_defs)
  have g2: "\<forall>l \<in> set ([]::jsstring list). trim l = []"
    by simp
  have c1: "phase_body_content [js ''We ease the neck first.'', js ''  Then the shoulders. '', []] = [js ''We ease the neck first.'', js ''Then the shoulders.'']"
    by (simp add: eval_defs phase_body_content_def)
  have c2: "phase_body_content [js ''Monthly sessions keep it so.''] = [js ''Monthly sessions keep it so.'']"
    by (simp add: eval_defs phase_body_content_def)
  have e: "escapeHtml (js ''We ease the neck first.'' @ js '' '' @ js ''Then the shoulders.'') =
             js ''We ease the neck first. Then the shoulders.''"
          "escapeHtml (js ''Monthly sessions keep it so.'') = js ''Monthly sessions keep it so.''"
          "escapeHtml (js ''Treatment Plan'') = js ''Treatment Plan''"
    by (simp_all add: js_def escapeHtml_def replace_char_def)
  show ?thesis
    using two_phase_cards[OF h0 h1 h2 g1 g2, of "\<lparr>number = js ''5'', title = js ''Treatment Plan'', description = js ''Overview of the plan'',
       lines = [js ''Overview of the plan''] @ [js ''**Getting You Comfortable** (Acute Phase, 2-4 weeks):''] @ [js ''We ease the neck first.'', js ''  Then the shoulders. '', []] @ [js ''Recommended: 2x/week''] @ [[]] @
                [js ''**Keeping You at Your Best** (Maintenance, Ongoing):''] @ [js ''Monthly sessions keep it so.''] @ [js ''Recommended: 2x/week''] @ [],
       isOrphaned = False\<rparr>"] h0 h1 h2 g1
    unfolding c1 c2 by (simp add: e)
qed

text \<open>
  A body line that starts with two asterisks does not reach the paragraph of its card, and a
  body line that mentions the name of a phase is taken for a phase header and opens a card of
  its own.
\<close>

theorem bold_body_counterexample:
  \<open>renderTreatmentPlanSection
     (\<lparr>number = js ''5'', title = js ''Treatment Plan'', description = [],
       lines = [js ''**Getting You Comfortable** (Acute Phase, 2-4 weeks):'',
        js ''**Important:** rest for two days.'', js ''Recommended: 2x/week'',
        js ''**Keeping You at Your Best** (Maintenance, Ongoing):'',
        js ''Keep moving.'', js ''Recommended: 2x/week''],
       isOrphaned = False\<rparr>) =
      js ''\<newline>    <section class="section treatment-plan-section">'' @
      js ''\<newline>      <h2><span class="num">'' @
      js ''5'' @
      js ''.</span> '' @
      js ''Treatment Plan'' @
      js ''</h2>'' @
      js ''\<newline>  '' @
      js ''\<newline>      <div class="treatment-phase-card">'' @
      js ''\<newline>        <div class="treatment-phase-header">'' @
      js ''\<newline>          <span class="treatment-phase-title">'' @
      js ''Getting You Comfortable'' @
      js ''</span>'' @
      js ''\<newline>          <span class="treatment-phase-subtitle">('' @
      js ''Acute Phase, 2-4 weeks'' @
      js '')</span>'' @
      js ''\<newline>        </div>'' @
      js ''\<newline>        <div class="treatment-phase-content">'' @
      js ''\<newline>          <p>'' @
      [] @
      js ''</p>'' @
      js ''\<newline>        </div>'' @
      js ''\<newline>        '' @
      js ''\<newline>        <div class="treatment-phase-recommended">'' @
      js ''\<newline>          <strong>Recommended:</strong> '' @
      js ''2x/week'' @
      js ''\<newline>        </div>'' @
      js ''\<newline>        '' @
      js ''\<newline>      </div>'' @
      js ''\<newline>    '' @
      js ''\<newline>      <div class="treatment-phase-card">'' @
      js ''\<newline>        <div class="treatment-phase-header">'' @
      js ''\<newline>          <span class="treatment-phase-title">'' @
      js ''Keeping You at Your Best'' @
      js ''</span>'' @
      js ''\<newline>          <span class="treatment-phase-subtitle">('' @
      js ''Maintenance, Ongoing'' @
      js '')</span>'' @
      js ''\<newline>        </div>'' @
      js ''\<newline>        <div class="treatment-phase-content">'' @
      js ''\<newline>          <p>'' @
      js ''Keep moving.'' @
      js ''</p>'' @
      js ''\<newline>        </div>'' @
      js ''\<newline>        '' @
      js ''\<newline>        <div class="treatment-phase-recommended">'' @
      js ''\<newline>          <strong>Recommended:</strong> '' @
      js ''2x/week'' @
      js ''\<newline>        </div>'' @
      js ''\<newline>        '' @
      js ''\<newline>      </div>'' @
      js ''\<newline>    '' @
      js ''\<newline>    </section>'' @
      js ''\<newline>  '' \<and>
   parse_phases
       [js ''**Getting You Comfortable** (Acute Phase, 2-4 weeks):'',
        js ''Then Keeping You at Your Best'', js ''Recommended: 2x/week'',
        js ''**Keeping You at Your Best** (Maintenance, Ongoing):'',
        js ''Keep moving.'', js ''Recommended: 2x/week''] =
      [\<lparr>phase_title = js ''Getting You Comfortable'', phase_subtitle = js ''Acute Phase, 2-4 weeks'',
        phase_content = [], phase_recommended = []\<rparr>,
       \<lparr>phase_title = js ''Then Keeping You at Your Best'', phase_subtitle = [],
        phase_content = [], phase_recommended = js ''2x/week''\<rparr>,
       \<lparr>phase_title = js ''Keeping You at Your Best'', phase_subtitle = js ''Maintenance, Ongoing'',
        phase_content = [js ''Keep moving.''], phase_recommended = js ''2x/week''\<rparr>]\<close>
proof -
  have p: "parse_phases
       [js ''**Getting You Comfortable** (Acute Phase, 2-4 weeks):'',
        js ''**Important:** rest for two days.'', js ''Recommended: 2x/week'',
        js ''**Keeping You at Your Best** (Maintenance, Ongoing):'',
        js ''Keep moving.'', js ''Recommended: 2x/week''] =
      [\<lparr>phase_title = js ''Getting You Comfortable'', phase_subtitle = js ''Acute Phase, 2-4 weeks'',
        phase_content = [], phase_recommended = js ''2x/week''\<rparr>,
       \<lparr>phase_title = js ''Keeping You at Your Best'', phase_subtitle = js ''Maintenance, Ongoing'',
        phase_content = [js ''Keep moving.''], phase_recommended = js ''2x/week''\<rparr>]"
    by (simp add: eval_defs parse_phases_def isPhaseHeader_def new_phase_def phase_header_rx_def
        recommended_rx_def)
  have q: "parse_phases
       [js ''**Getting You Comfortable** (Acute Phase, 2-4 weeks):'',
        js ''Then Keeping You at Your Best'', js ''Recommended: 2x/week'',
        js ''**Keeping You at Your Best** (Maintenance, Ongoing):'',
        js ''Keep moving.'', js ''Recommended: 2x/week''] =
      [\<lparr>phase_title = js ''Getting You Comfortable'', phase_subtitle = js ''Acute Phase, 2-4 weeks'',
        phase_content = [], phase_recommended = []\<rparr>,
       \<lparr>phase_title = js ''Then Keeping You at Your Best'', phase_subtitle = [],
        phase_content = [], phase_recommended = js ''2x/week''\<rparr>,
       \<lparr>phase_title = js ''Keeping You at Your Best'', phase_subtitle = js ''Maintenance, Ongoing'',
        phase_content = [js ''Keep moving.''], phase_recommended = js ''2x/week''\<rparr>]"
    by (simp add: eval_defs parse_phases_def isPhaseHeader_def new_phase_def phase_header_rx_def
        recommended_rx_def)
  have c: "escapeHtml (trim (join (js '' '') [])) = []"
          "escapeHtml (trim (join (js '' '') [js ''Keep moving.''])) = js ''Keep moving.''"
          "escapeHtml (js ''Treatment Plan'') = js ''Treatment Plan''"
    by (simp_all add: eval_defs escapeHtml_def replace_char_def)
  have r: \<open>renderTreatmentPlanSection
     (\<lparr>number = js ''5'', title = js ''Treatment Plan'', description = [],
       lines = [js ''**Getting You Comfortable** (Acute Phase, 2-4 weeks):'',
        js ''**Important:** rest for two days.'', js ''Recommended: 2x/week'',
        js ''**Keeping You at Your Best** (Maintenance, Ongoing):'',
        js ''Keep moving.'', js ''Recommended: 2x/week''],
       isOrphaned = False\<rparr>) =
      js ''\<newline>    <section class="section treatment-plan-section">'' @
      js ''\<newline>      <h2><span class="num">'' @
      js ''5'' @
      js ''.</span> '' @
      js ''Treatment Plan'' @
      js ''</h2>'' @
      js ''\<newline>  '' @
      js ''\<newline>      <div class="treatment-phase-card">'' @
      js ''\<newline>        <div class="treatment-phase-header">'' @
      js ''\<newline>          <span class="treatment-phase-title">'' @
      js ''Getting You Comfortable'' @
      js ''</span>'' @
      js ''\<newline>          <span class="treatment-phase-subtitle">('' @
      js ''Acute Phase, 2-4 weeks'' @
      js '')</span>'' @
      js ''\<newline>        </div>'' @
      js ''\<newline>        <div class="treatment-phase-content">'' @
      js ''\<newline>          <p>'' @
      [] @
      js ''</p>'' @
      js ''\<newline>        </div>'' @
      js ''\<newline>        '' @
      js ''\<newline>        <div class="treatment-phase-recommended">'' @
      js ''\<newline>          <strong>Recommended:</strong> '' @
      js ''2x/week'' @
      js ''\<newline>        </div>'' @
      js ''\<newline>        '' @
      js ''\<newline>      </div>'' @
      js ''\<newline>    '' @
      js ''\<newline>      <div class="treatment-phase-card">'' @
      js ''\<newline>        <div class="treatment-phase-header">'' @
      js ''\<newline>          <span class="treatment-phase-title">'' @
      js ''Keeping You at Your Best'' @
      js ''</span>'' @
      js ''\<newline>          <span class="treatment-phase-subtitle">('' @
      js ''Maintenance, Ongoing'' @
      js '')</span>'' @
      js ''\<newline>        </div>'' @
      js ''\<newline>        <div class="treatment-phase-content">'' @
      js ''\<newline>          <p>'' @
      js ''Keep moving.'' @
      js ''</p>'' @
      js ''\<newline>        </div>'' @
      js ''\<newline>        '' @
      js ''\<newline>        <div class="treatment-phase-recommended">'' @
      js ''\<newline>          <strong>Recommended:</strong> '' @
      js ''2x/week'' @
      js ''\<newline>        </div>'' @
      js ''\<newline>        '' @
      js ''\<newline>      </div>'' @
      js ''\<newline>    '' @
      js ''\<newline>    </section>'' @
      js ''\<newline>  ''\<close>
    unfolding renderTreatmentPlanSection_def Let_def
    by (simp only: plan_section.simps p foldl_Cons foldl_Nil
        phase_card_full[OF js_Cons_nonempty js_Cons_nonempty] escapeHtml_literals c append_assoc)
  show ?thesis using r q by simp
qed

text \<open>
  C10: in a section given to the Treatment Plan renderer, the lines before the first line
  that contains \<^verbatim>\<open>Getting You Comfortable\<close> or \<^verbatim>\<open>Keeping You at Your Best\<close> (the description
  that the splitter stores as the first line is one of them) leave no trace in the HTML; when
  no line contains either text, the output is the heading of the section followed by the end
  of the section, without any phase card.
\<close>

theorem lines_before_first_phase:
  \<open>((\<forall>l \<in> set pre. \<not> includes_js l (js ''Getting You Comfortable'') \<and> \<not> includes_js l (js ''Keeping You at Your Best'')) \<longrightarrow>
      renderTreatmentPlanSection (sec\<lparr>lines := pre @ rest\<rparr>) =
      renderTreatmentPlanSection (sec\<lparr>lines := rest\<rparr>)) \<and>
   ((\<forall>l \<in> set (lines sec). \<not> includes_js l (js ''Getting You Comfortable'') \<and> \<not> includes_js l (js ''Keeping You at Your Best'')) \<longrightarrow>
      renderTreatmentPlanSection sec =
      js ''\<newline>    <section class="section treatment-plan-section">'' @
      js ''\<newline>      <h2><span class="num">'' @
      number sec @
      js ''.</span> '' @
      escapeHtml (title sec) @
      js ''</h2>'' @
      js ''\<newline>  '' @
      js ''\<newline>    </section>'' @
      js ''\<newline>  '')\<close>
  by (simp add: renderTreatmentPlanSection_def Let_def parse_phases_skip parse_phases_none
      isPhaseHeader_trim)

theorem lines_before_first_phase_witness:
  \<open>\<not> includes_js (js ''Overview'') (js ''Getting You Comfortable'') \<and>
   \<not> includes_js (js ''Overview'') (js ''Keeping You at Your Best'') \<and>
   \<not> includes_js (js ''More text'') (js ''Getting You Comfortable'') \<and>
   \<not> includes_js (js ''More text'') (js ''Keeping You at Your Best'') \<and>
   parsePlanText (js ''5. Treatment Plan: Overview\<newline>**Getting You Comfortable** (Acute):\<newline>Body.'') =
     [\<lparr>number = js ''5'', title = js ''Treatment Plan'', description = js ''Overview'', lines = [js ''Overview''] @ [js ''**Getting You Comfortable** (Acute):'', js ''Body.''], isOrphaned = False\<rparr>] \<and>
   renderTreatmentPlanSection
     (\<lparr>number = js ''5'', title = js ''Treatment Plan'', description = js ''Overview'', lines = [js ''Overview''] @ [js ''**Getting You Comfortable** (Acute):'', js ''Body.''], isOrphaned = False\<rparr>) =
   renderTreatmentPlanSection
     (\<lparr>number = js ''5'', title = js ''Treatment Plan'', description = js ''Overview'', lines = [js ''**Getting You Comfortable** (Acute):'', js ''Body.''], isOrphaned = False\<rparr>) \<and>
   renderTreatmentPlanSection (\<lparr>number = js ''5'', title = js ''Treatment Plan'', description = js ''Overview'', lines = [js ''Overview'', js ''More text''], isOrphaned = False\<rparr>) =
      js ''\<newline>    <section class="section treatment-plan-section">'' @
      js ''\<newline>      <h2><span class="num">'' @
      js ''5'' @
      js ''.</span> '' @
      js ''Treatment Plan'' @
      js ''</h2>'' @
      js ''\<newline>  '' @
      js ''\<newline>    </section>'' @
      js ''\<newline>  ''\<close>
proof -
  have h: "\<forall>l \<in> set [js ''Overview'', js ''More text''].
      \<not> includes_js l (js ''Getting You Comfortable'') \<and> \<not> includes_js l (js ''Keeping You at Your Best'')"
    by (simp add: js_def startsWith_def)
  have p: "parsePlanText (js ''5. Treatment Plan: Overview\<newline>**Getting You Comfortable** (Acute):\<newline>Body.'') =
     [\<lparr>number = js ''5'', title = js ''Treatment Plan'', description = js ''Overview'', lines = [js ''Overview''] @ [js ''**Getting You Comfortable** (Acute):'', js ''Body.''], isOrphaned = False\<rparr>]"
    by (simp add: eval_defs parse_defs)
  have e: "escapeHtml (js ''Treatment Plan'') = js ''Treatment Plan''"
    by (simp add: js_def escapeHtml_def replace_char_def)
  show ?thesis
    using lines_before_first_phase[where pre = "[js ''Overview'']"
        and sec = "\<lparr>number = js ''5'', title = js ''Treatment Plan'', description = js ''Overview'', lines = [], isOrphaned = False\<rparr>"
        and rest = "[js ''**Getting You Comfortable** (Acute):'', js ''Body.'']"]
      lines_before_first_phase[where pre = "[]" and rest = "[]"
        and sec = "\<lparr>number = js ''5'', title = js ''Treatment Plan'', description = js ''Overview'', lines = [js ''Overview'', js ''More text''], isOrphaned = False\<rparr>"] h p
    by (simp add: e)
qed

section \<open>Escaping: one pass, no marker left\<close>

lemma replace_char_append:
  "replace_char c rep (a @ b) = replace_char c rep a @ replace_char c rep b"
  by (simp add: replace_char_def)

lemma replace_char_Cons:
  "replace_char c rep (x # s) = (if x = c then rep else [x]) @ replace_char c rep s"
  by (simp add: replace_char_def)

lemma replace_char_Nil: "replace_char c rep [] = []"
  by (simp add: replace_char_def)

lemma escape_single_pass:
  "replace_char 62 (js ''&gt;'') (replace_char 60 (js ''&lt;'') (replace_char 38 (js ''&amp;'') u)) =
   concat (map escape_char u)"
proof (induction u)
  case Nil
  then show ?case by (simp add: replace_char_Nil)
next
  case (Cons c u)
  have amp: "replace_char 62 (js ''&gt;'') (replace_char 60 (js ''&lt;'') (js ''&amp;'')) = js ''&amp;''"
    by (simp add: js_def replace_char_def)
  have lt: "replace_char 62 (js ''&gt;'') (js ''&lt;'') = js ''&lt;''"
    by (simp add: js_def replace_char_def)
  show ?case
    using Cons amp lt
    by (simp add: replace_char_Cons replace_char_append replace_char_Nil escape_char_def)
qed

lemma escapeHtml_single_pass: "escapeHtml text = concat (map escape_char (strip_bold text))"
  by (simp add: escapeHtml_def escape_single_pass)

lemma startsWith_Cons: "startsWith (c # s) (x # q) \<longleftrightarrow> c = x \<and> startsWith s q"
  by (auto simp: startsWith_def)

lemma startsWith_Nil: "startsWith s []" "startsWith [] q \<longleftrightarrow> q = []"
  by (auto simp: startsWith_def)

lemma strip_bold_Cons: "b \<noteq> 42 \<Longrightarrow> strip_bold (b # cs) = b # strip_bold cs"
  by (cases cs) simp_all

lemma strip_bold_no_bold: "\<not> includes_js (strip_bold s) [42, 42]"
proof (induction s rule: strip_bold.induct)
  case (1 a b cs)
  show ?case
  proof (cases "a = 42 \<and> b = 42")
    case True
    then show ?thesis using 1 by simp
  next
    case False
    have ih: "\<not> includes_js (strip_bold (b # cs)) [42, 42]" using 1 False by blast
    show ?thesis
    proof (cases "a = 42")
      case True
      then have "b \<noteq> 42" using False by simp
      then show ?thesis using ih False by (simp add: strip_bold_Cons startsWith_Cons)
    next
      case a: False
      then show ?thesis using ih False by (simp add: startsWith_Cons)
    qed
  qed
qed (simp_all add: startsWith_Cons startsWith_Nil)

lemma escape_char_cases:
  "escape_char c = js ''&amp;'' \<or> escape_char c = js ''&lt;'' \<or> escape_char c = js ''&gt;'' \<or>
   (escape_char c = [c] \<and> c \<noteq> 38 \<and> c \<noteq> 60 \<and> c \<noteq> 62)"
  by (simp add: escape_char_def)

lemma includes_Cons_other: "x \<noteq> hd p \<Longrightarrow> p \<noteq> [] \<Longrightarrow> includes_js (x # s) p = includes_js s p"
  by (cases p) (simp_all add: startsWith_Cons)

lemma starts_star_escape:
  "startsWith (concat (map escape_char u)) [42] \<longleftrightarrow> startsWith u [42]"
proof (cases u)
  case Nil
  then show ?thesis by simp
next
  case (Cons c u')
  show ?thesis unfolding Cons
    by (auto simp: escape_char_def js_def startsWith_Cons startsWith_Nil)
qed

lemma escape_no_bold:
  "\<not> includes_js u [42, 42] \<Longrightarrow> \<not> includes_js (concat (map escape_char u)) [42, 42]"
proof (induction u)
  case Nil
  then show ?case by simp
next
  case (Cons c u)
  have ih: "\<not> includes_js (concat (map escape_char u)) [42, 42]" using Cons by simp
  consider "escape_char c = js ''&amp;''" | "escape_char c = js ''&lt;''" | "escape_char c = js ''&gt;''"
    | "escape_char c = [c]" using escape_char_cases by blast
  then show ?case
  proof cases
    case 1
    then show ?thesis using ih by (simp add: js_def startsWith_Cons)
  next
    case 2
    then show ?thesis using ih by (simp add: js_def startsWith_Cons)
  next
    case 3
    then show ?thesis using ih by (simp add: js_def startsWith_Cons)
  next
    case 4
    have "\<not> (c = 42 \<and> startsWith u [42])" using Cons.prems by (simp add: startsWith_Cons)
    then show ?thesis using 4 ih starts_star_escape[of u] by (simp add: startsWith_Cons)
  qed
qed

lemma escapeHtml_no_bold: "\<not> includes_js (escapeHtml text) (js ''**'')"
proof -
  have "js ''**'' = [42, 42]" by (simp add: js_def)
  then show ?thesis
    using escape_no_bold[OF strip_bold_no_bold[of "text"]] by (simp add: escapeHtml_single_pass)
qed

lemma starts_plain_escape:
  "\<forall>x \<in> set q. x \<noteq> 38 \<and> x \<noteq> 60 \<and> x \<noteq> 62 \<Longrightarrow>
   startsWith (concat (map escape_char u)) q \<Longrightarrow> startsWith u q"
proof (induction q arbitrary: u)
  case Nil
  then show ?case by (simp add: startsWith_Nil)
next
  case (Cons x q)
  show ?case
  proof (cases u)
    case Nil
    then show ?thesis using Cons.prems by (simp add: startsWith_Nil)
  next
    case u: (Cons c u')
    have x: "x \<noteq> 38" using Cons.prems(1) by simp
    consider "escape_char c = js ''&amp;''" | "escape_char c = js ''&lt;''" | "escape_char c = js ''&gt;''"
      | "escape_char c = [c]" using escape_char_cases by blast
    then show ?thesis
    proof cases
      case 1
      then show ?thesis using Cons.prems(2) x unfolding u by (simp add: js_def startsWith_Cons)
    next
      case 2
      then show ?thesis using Cons.prems(2) x unfolding u by (simp add: js_def startsWith_Cons)
    next
      case 3
      then show ?thesis using Cons.prems(2) x unfolding u by (simp add: js_def startsWith_Cons)
    next
      case 4
      then have "c = x \<and> startsWith (concat (map escape_char u')) q"
        using Cons.prems(2) unfolding u by (simp add: startsWith_Cons)
      then show ?thesis using Cons.IH[of u'] Cons.prems(1) unfolding u by (simp add: startsWith_Cons)
    qed
  qed
qed

lemma escape_no_double:
  "includes_js (concat (map escape_char u)) (js ''&amp;amp;'') \<Longrightarrow> includes_js u (js ''&amp;'')"
proof (induction u)
  case Nil
  then show ?case by (simp add: js_def)
next
  case (Cons c u)
  let ?W = "concat (map escape_char u)"
  consider "escape_char c = js ''&amp;''" | "escape_char c = js ''&lt;''" | "escape_char c = js ''&gt;''"
    | "escape_char c = [c] \<and> c \<noteq> 38" using escape_char_cases by blast
  then show ?case
  proof cases
    case 1
    then have c: "c = 38" by (auto simp: escape_char_def js_def split: if_splits)
    have "startsWith ?W (js ''amp;'') \<or> includes_js ?W (js ''&amp;amp;'')"
      using Cons.prems 1 by (simp add: js_def startsWith_Cons)
    then show ?thesis
    proof
      assume "startsWith ?W (js ''amp;'')"
      then have "startsWith u (js ''amp;'')"
        by (rule starts_plain_escape[rotated]) (simp add: js_def)
      then show ?thesis using c by (simp add: js_def startsWith_Cons)
    next
      assume "includes_js ?W (js ''&amp;amp;'')"
      then show ?thesis using Cons.IH by simp
    qed
  next
    case 2
    then have "includes_js ?W (js ''&amp;amp;'')"
      using Cons.prems by (simp add: js_def startsWith_Cons)
    then show ?thesis using Cons.IH by simp
  next
    case 3
    then have "includes_js ?W (js ''&amp;amp;'')"
      using Cons.prems by (simp add: js_def startsWith_Cons)
    then show ?thesis using Cons.IH by simp
  next
    case 4
    then have "includes_js ?W (js ''&amp;amp;'')"
      using Cons.prems by (simp add: js_def startsWith_Cons)
    then show ?thesis using Cons.IH by simp
  qed
qed

subsection \<open>The escaped title in the document\<close>

lemma heading_here: "\<exists>pre post. e @ h @ q = pre @ e @ h @ post"
proof -
  have "e @ h @ q = [] @ e @ h @ q" by simp
  then show ?thesis by blast
qed

lemma heading_later:
  "\<exists>pre post. x = pre @ e @ h @ post \<Longrightarrow> \<exists>pre post. a @ x = pre @ e @ h @ (post :: jsstring)"
proof -
  assume "\<exists>pre post. x = pre @ e @ h @ post"
  then obtain pre post where "x = pre @ e @ h @ post" by blast
  then have "a @ x = (a @ pre) @ e @ h @ post" by simp
  then show ?thesis by blast
qed

lemma foldl_cards:
  "foldl (\<lambda>html phase. html @ phase_card phase) h ps = h @ concat (map phase_card ps)"
  by (induction ps arbitrary: h) simp_all

lemma goals_heading:
  "\<exists>pre post. renderGoalsSection sec = pre @ escapeHtml (title sec) @ js ''</h2>'' @ post"
  unfolding renderGoalsSection_def Let_def
  by (simp only: split: if_split) (intro conjI impI heading_here heading_later)

lemma key_actions_heading:
  "\<exists>pre post. renderKeyActionsSection sec = pre @ escapeHtml (title sec) @ js ''</h2>'' @ post"
  unfolding renderKeyActionsSection_def Let_def
  by (simp only: split: if_split) (intro conjI impI heading_here heading_later)

lemma treatment_heading:
  "\<exists>pre post. renderTreatmentPlanSection sec = pre @ escapeHtml (title sec) @ js ''</h2>'' @ post"
  unfolding renderTreatmentPlanSection_def Let_def foldl_cards append_assoc
  by (intro heading_here heading_later)

lemma section_heading:
  "\<exists>pre post. render_section sec = pre @ escapeHtml (title sec) @ js ''</h2>'' @ post"
proof -
  have generic: \<open>\<exists>pre post.
      js ''\<newline>      <section class="section">'' @
      js ''\<newline>        <h2><span class="num">'' @
      number sec @
      js ''.</span> '' @
      escapeHtml (title sec) @
      js ''</h2>'' @
      js ''\<newline>        '' @
      join (js ''\<newline>'') (section_items (lines sec)) @
      js ''\<newline>      </section>'' @
      js ''\<newline>    '' = pre @ escapeHtml (title sec) @ js ''</h2>'' @ post\<close>
    by (intro heading_here heading_later)
  have orphaned: \<open>\<exists>pre post.
      js ''\<newline>        <section class="section orphaned-section">'' @
      js ''\<newline>          <h2>'' @
      escapeHtml (title sec) @
      js ''</h2>'' @
      js ''\<newline>          '' @
      join (js ''\<newline>'') (section_items (lines sec)) @
      js ''\<newline>        </section>'' @
      js ''\<newline>      '' = pre @ escapeHtml (title sec) @ js ''</h2>'' @ post\<close>
    by (intro heading_here heading_later)
  show ?thesis
    unfolding render_section_def Let_def
    using generic orphaned goals_heading[of sec] key_actions_heading[of sec] treatment_heading[of sec]
    by (simp only: split: if_split) blast
qed

lemma join_contains: "x \<in> set xs \<Longrightarrow> \<exists>pre post. join sep xs = pre @ x @ post"
proof (induction sep xs rule: join.induct)
  case (1 sep)
  then show ?case by simp
next
  case (2 sep y)
  then have "join sep [y] = [] @ x @ []" by simp
  then show ?case by blast
next
  case (3 sep y z zs)
  show ?case
  proof (cases "x = y")
    case True
    then have "join sep (y # z # zs) = [] @ x @ (sep @ join sep (z # zs))" by simp
    then show ?thesis by blast
  next
    case False
    then have "x \<in> set (z # zs)" using 3 by simp
    then obtain pre post where "join sep (z # zs) = pre @ x @ post" using 3 by blast
    then have "join sep (y # z # zs) = (y @ sep @ pre) @ x @ post" by simp
    then show ?thesis by blast
  qed
qed

lemma document_heading:
  assumes "sec \<in> set (parsePlanText planText)"
  shows "\<exists>pre post. renderStructuredHtml shellBefore shellAfter planText =
           pre @ escapeHtml (title sec) @ js ''</h2>'' @ post"
proof -
  let ?html = "join (js ''\<newline>'') (map render_section (parsePlanText planText))"
  have "render_section sec \<in> set (map render_section (parsePlanText planText))"
    using assms by simp
  then obtain a b where j: "?html = a @ render_section sec @ b"
    using join_contains by blast
  obtain pre post where r: "render_section sec = pre @ escapeHtml (title sec) @ js ''</h2>'' @ post"
    using section_heading by blast
  have "js ''</h2>'' \<noteq> []" by (simp add: js_def)
  then have ne: "?html \<noteq> []" unfolding j r by simp
  have "renderStructuredHtml shellBefore shellAfter planText =
        (shellBefore @ a @ pre) @ escapeHtml (title sec) @ js ''</h2>'' @ (post @ b @ shellAfter)"
    using ne j r by (simp add: renderStructuredHtml_def renderMain_def Let_def)
  then show ?thesis by blast
qed

text \<open>
  C2 (as amended): the escaping function first removes every marker \<^verbatim>\<open>**\<close> and then replaces,
  in one pass over what is left, \<^verbatim>\<open>&\<close> by \<^verbatim>\<open>&amp;\<close>, \<^verbatim>\<open><\<close> by \<^verbatim>\<open>&lt;\<close> and \<^verbatim>\<open>>\<close> by \<^verbatim>\<open>&gt;\<close>; its
  result has no \<^verbatim>\<open>**\<close>, and it has \<^verbatim>\<open>&amp;amp;\<close> only if the text without the markers already
  has \<^verbatim>\<open>&amp;\<close>. The title of every section stands in the document escaped in this way, once,
  in front of \<^verbatim>\<open></h2>\<close>.
\<close>

theorem escaping_once:
  "escapeHtml text = concat (map escape_char (strip_bold text)) \<and>
   \<not> includes_js (escapeHtml text) (js ''**'') \<and>
   (\<not> includes_js (strip_bold text) (js ''&amp;'') \<longrightarrow>
      \<not> includes_js (escapeHtml text) (js ''&amp;amp;'')) \<and>
   (\<forall>sec \<in> set (parsePlanText planText).
      \<exists>pre post. renderStructuredHtml shellBefore shellAfter planText =
        pre @ escapeHtml (title sec) @ js ''</h2>'' @ post)"
  using escapeHtml_single_pass[of "text"] escapeHtml_no_bold[of "text"]
    escape_no_double[of "strip_bold text"] document_heading[of _ planText shellBefore shellAfter]
  by auto

theorem escaping_once_witness:
  "\<not> includes_js (strip_bold (js ''**Rest** & <ice>'')) (js ''&amp;'') \<and>
   \<not> includes_js (escapeHtml (js ''**Rest** & <ice>'')) (js ''&amp;amp;'') \<and>
   escapeHtml (js ''**Rest** & <ice>'') = js ''Rest &amp; &lt;ice&gt;'' \<and>
   \<lparr>number = js ''1'', title = js ''Rest & ice'', description = [], lines = [], isOrphaned = False\<rparr>
     \<in> set (parsePlanText (js ''1. Rest & ice'')) \<and>
   (\<exists>pre post. renderStructuredHtml [] [] (js ''1. Rest & ice'') =
      pre @ js ''Rest &amp; ice</h2>'' @ post)"
proof -
  have s: "strip_bold (js ''**Rest** & <ice>'') = js ''Rest & <ice>''"
    by (simp add: js_def)
  have n: "\<not> includes_js (js ''Rest & <ice>'') (js ''&amp;'')"
    by (simp add: js_def startsWith_def)
  have e: "concat (map escape_char (js ''Rest & <ice>'')) = js ''Rest &amp; &lt;ice&gt;''"
    by (simp add: js_def escape_char_def)
  have p: "parsePlanText (js ''1. Rest & ice'') =
      [\<lparr>number = js ''1'', title = js ''Rest & ice'', description = [], lines = [], isOrphaned = False\<rparr>]"
    by (simp add: eval_defs parse_defs)
  have t: "escapeHtml (js ''Rest & ice'') @ js ''</h2>'' @ post = js ''Rest &amp; ice</h2>'' @ post" for post
    by (simp add: js_def escapeHtml_def replace_char_def)
  have a: "\<not> includes_js (escapeHtml (js ''**Rest** & <ice>'')) (js ''&amp;amp;'')"
    using escaping_once[of "js ''**Rest** & <ice>''"] n unfolding s by blast
  have b: "escapeHtml (js ''**Rest** & <ice>'') = js ''Rest &amp; &lt;ice&gt;''"
    using escaping_once[of "js ''**Rest** & <ice>''"] unfolding s e by blast
  have c: "\<exists>pre post. renderStructuredHtml [] [] (js ''1. Rest & ice'') =
      pre @ js ''Rest &amp; ice</h2>'' @ post"
    using escaping_once[of _ "js ''1. Rest & ice''" "[]" "[]"] unfolding p by (simp add: t)
  show ?thesis using a b c n unfolding s p by simp
qed

text \<open>
  A title that has the text \<^verbatim>\<open>&amp;\<close> in it is escaped like any other: its \<^verbatim>\<open>&\<close> becomes
  \<^verbatim>\<open>&amp;\<close>, and the document has \<^verbatim>\<open>&amp;amp;\<close>.
\<close>

theorem entity_title_counterexample:
  \<open>parsePlanText (js ''1. Q&amp;A'') =
     [\<lparr>number = js ''1'', title = js ''Q&amp;A'', description = [], lines = [], isOrphaned = False\<rparr>] \<and>
   renderMain (js ''1. Q&amp;A'') =
     js ''\<newline>      <section class="section">'' @
     js ''\<newline>        <h2><span class="num">1.</span> Q&amp;amp;A</h2>'' @
     js ''\<newline>        '' @
     js ''\<newline>      </section>'' @
     js ''\<newline>    ''\<close>
proof -
  have p: "parsePlanText (js ''1. Q&amp;A'') =
     [\<lparr>number = js ''1'', title = js ''Q&amp;A'', description = [], lines = [], isOrphaned = False\<rparr>]"
    by (simp add: eval_defs parse_defs)
  have i: "includes_js (js ''Q&amp;A'') (js ''Treatment Plan'') = False"
          "includes_js (js ''Q&amp;A'') (js ''Goals'') = False"
          "includes_js (js ''Q&amp;A'') (js ''Key Actions'') = False"
    by (simp_all add: js_def startsWith_def)
  have e: "escapeHtml (js ''Q&amp;A'') = js ''Q&amp;amp;A''"
    by (simp add: js_def escapeHtml_def replace_char_def)
  have one: "[49] = js ''1''"
    by (simp add: js_def)
  show ?thesis
    by (simp add: renderMain_def p render_section_def section_items_def i e js_Cons_nonempty)
      (simp add: js_merge one)
qed

section \<open>Input without headers\<close>




section \<open>Well-formed headers\<close>

lemma concat_if_nil:
  "concat (map (\<lambda>r. if r = [] then [v] else []) xs) = map (\<lambda>_. v) (filter (\<lambda>r. r = []) xs)"
  by (induction xs) simp_all

lemma star_rems_filter_nil:
  "filter (\<lambda>r. r = []) (star_rems P cs) = (if list_all P cs then [[]] else [])"
  by (induction cs) auto

lemma eoi_eps: "rx_run (Seq Eoi Eps) r = (if r = [] then [([], [])] else [])"
  by simp

lemma grp_plus:
  "rx_run (Grp (Plus P)) (c # cs) =
     (if P c then map (\<lambda>r. ([Some (take (Suc (length cs) - length r) (c # cs))], r)) (star_rems P cs)
      else [])"
  by (simp add: comp_def)

lemma plus_eoi:
  "rx_run (Seq (Grp (Plus P)) (Seq Eoi Eps)) s =
     (if s \<noteq> [] \<and> list_all P s then [([Some s], [])] else [])"
proof (cases s)
  case Nil
  then show ?thesis by simp
next
  case (Cons c cs)
  let ?v = "([Some (c # cs)], []) :: rx_result"
  have f: "(\<lambda>r. map (\<lambda>(cb, r'). (Some (take (Suc (length cs) - length r) (c # cs)) # cb, r'))
                 (if r = [] then [([], [])] else [])) =
           (\<lambda>r. if r = [] then [?v] else [])"
    by (rule ext) simp
  have "rx_run (Seq (Grp (Plus P)) (Seq Eoi Eps)) (c # cs) =
        (if P c then concat (map (\<lambda>r. if r = [] then [?v] else []) (star_rems P cs)) else [])"
    unfolding rx_run.simps(4)[of "Grp (Plus P)"] eoi_eps grp_plus
    by (simp add: comp_def f del: rx_run.simps)
  also have "\<dots> = (if P c \<and> list_all P cs then [?v] else [])"
    by (simp only: concat_if_nil star_rems_filter_nil) simp
  finally show ?thesis unfolding Cons by simp
qed

lemma star_rems_stop: "\<not> P c \<Longrightarrow> star_rems P (c # cs) = [c # cs]"
  by simp

lemma header_run_head:
  assumes "is_digit n" "M \<noteq> []" "\<not> is_space (hd M)" "list_all is_dot M"
  shows "rx_match header_rx (n # 46 # 32 # M) = Some ([Some [n], Some M], [])"
proof -
  have n: "\<not> is_space n" using assms(1) by (auto simp: is_digit_def is_space_def)
  obtain c cs where M: "M = c # cs" using assms(2) by (cases M) auto
  have c: "\<not> is_space c" using assms(3) M by simp
  have tail: "rx_run (Seq (Grp (Plus is_dot)) (Seq Eoi Eps)) M = [([Some M], [])]"
    using assms(2,4) by (simp only: plus_eoi) simp
  have sp: "is_space 32" by (simp add: is_space_def)
  have dot: "js ''.'' = [46]" by (simp add: js_def)
  have "rx_run header_rx (n # 46 # 32 # M) =
      ([Some [n], Some M], []) #
      map (\<lambda>(cb, r'). (Some [n] # cb, r')) (rx_run (Seq (Grp (Plus is_dot)) (Seq Eoi Eps)) (32 # M))"
    unfolding header_rx_def seqs_def foldr.simps comp_def dot
    using n c sp tail assms(1) unfolding M
    by (simp del: rx_run.simps(4,8,10) add: rx_run.simps(4)[of "Star is_space"]
        rx_run.simps(4)[of "Grp (Cls is_digit)"] rx_run.simps(4)[of "Lit [46]"])
  then show ?thesis by (simp add: rx_match_def)
qed

lemma trimEnd_fixed: "s \<noteq> [] \<Longrightarrow> \<not> is_space (last s) \<Longrightarrow> trimEnd s = s"
proof -
  assume s: "s \<noteq> []" and l: "\<not> is_space (last s)"
  then have "rev s \<noteq> []" "\<not> is_space (hd (rev s))" by (simp_all add: hd_rev)
  then have "dropWhile is_space (rev s) = rev s" by (cases "rev s") simp_all
  then show ?thesis by (simp add: trimEnd_def)
qed

lemma trimEnd_snoc_space: "is_space c \<Longrightarrow> trimEnd (s @ [c]) = trimEnd s"
  by (simp add: trimEnd_def)

lemma wf_title_ends:
  "well_formed_title t \<Longrightarrow> t \<noteq> [] \<and> \<not> is_space (hd t) \<and> \<not> is_space (last t)"
  using trim_hd_last[of t] by (auto simp: well_formed_title_def)

lemma wf_description_last: "well_formed_description d \<Longrightarrow> d \<noteq> [] \<Longrightarrow> \<not> is_space (last d)"
  using trim_hd_last[of d] by (auto simp: well_formed_description_def)

text \<open>The text of a header after the digit, the period and the space, once trimmed at the end.\<close>

lemma header_trimEnd:
  assumes "well_formed_title t" "well_formed_description d"
  shows "trimEnd (header_line n t d) = n # 46 # 32 # t @ 58 # (if d = [] then [] else 32 # d)"
proof -
  have sp: "is_space 32" "\<not> is_space 58" by (simp_all add: is_space_def)
  have h: "header_line n t d = n # 46 # 32 # t @ 58 # 32 # d"
    by (simp add: header_line_def js_def)
  show ?thesis
  proof (cases "d = []")
    case True
    have "header_line n t d = (n # 46 # 32 # t @ [58]) @ [32]" using h True by simp
    then have "trimEnd (header_line n t d) = trimEnd (n # 46 # 32 # t @ [58])"
      using trimEnd_snoc_space[OF sp(1)] by metis
    also have "\<dots> = n # 46 # 32 # t @ [58]"
      by (rule trimEnd_fixed) (simp_all add: sp)
    finally show ?thesis using True by simp
  next
    case False
    then have "\<not> is_space (last d)" using wf_description_last[OF assms(2)] by blast
    then have "trimEnd (n # 46 # 32 # t @ 58 # 32 # d) = n # 46 # 32 # t @ 58 # 32 # d"
      using False by (intro trimEnd_fixed) simp_all
    then show ?thesis using False h by simp
  qed
qed

lemma trim_space_Cons: "is_space c \<Longrightarrow> trim (c # s) = trim s"
  by (simp add: trim_def trimStart_def)

lemma header_new_section:
  assumes "well_formed_title t" "well_formed_description d"
  shows "new_section [n] (t @ 58 # (if d = [] then [] else 32 # d)) =
     \<lparr>number = [n], title = t, description = d, lines = (if d \<noteq> [] then [d] else []),
      isOrphaned = False\<rparr>"
proof -
  define D where "D = (if d = [] then [] else 32 # d)"
  define M where "M = t @ 58 # D"
  have t: "t \<noteq> []" "\<not> is_space (hd t)" "trim t = t" "58 \<notin> set t"
    using assms(1) wf_title_ends[OF assms(1)] by (simp_all add: well_formed_title_def)
  have sp: "is_space 32" "\<not> is_space 58" by (simp_all add: is_space_def)
  have lastM: "\<not> is_space (last M)"
    unfolding M_def D_def using wf_description_last[OF assms(2)] sp by simp
  have hdM: "\<not> is_space (hd M)" unfolding M_def using t by simp
  have "M \<noteq> []" unfolding M_def by simp
  then have trimM: "trim M = M" using hdM lastM by (intro trim_fixed)
  have tw: "takeWhile (\<lambda>x. x \<noteq> 58) M = t"
    unfolding M_def using t(4) by (simp add: takeWhile_tail) blast
  have "58 \<in> set M" unfolding M_def by simp
  then have idx: "indexOf M 58 = int (length t)"
    unfolding indexOf_def tw by simp
  have tk: "take (nat (int (length t))) M = t" unfolding M_def by simp
  have dr: "drop (nat (int (length t)) + 1) M = D" unfolding M_def by simp
  have trimNil: "trim [] = []" by (simp add: trim_def trimEnd_def trimStart_def)
  have trimD: "trim D = d"
  proof (cases "d = []")
    case True
    then show ?thesis unfolding D_def using trimNil by simp
  next
    case False
    then show ?thesis unfolding D_def
      using assms(2) sp(1) by (simp add: trim_space_Cons well_formed_description_def)
  qed
  have "new_section [n] M =
     \<lparr>number = [n], title = t, description = d, lines = (if d \<noteq> [] then [d] else []),
      isOrphaned = False\<rparr>"
    unfolding new_section_def trimM Let_def idx tk dr trimD t(3)
    using t(1) by simp
  then show ?thesis unfolding M_def D_def .
qed

lemma header_all_dot:
  assumes "well_formed_title t" "well_formed_description d"
  shows "list_all is_dot (t @ 58 # (if d = [] then [] else 32 # d))"
  using assms
  by (simp add: well_formed_title_def well_formed_description_def is_dot_def is_line_terminator_def)

lemma header_match:
  assumes "is_digit n" "well_formed_title t" "well_formed_description d"
  shows "rx_match header_rx (trimEnd (header_line n t d)) =
           Some ([Some [n], Some (t @ 58 # (if d = [] then [] else 32 # d))], [])"
  unfolding header_trimEnd[OF assms(2,3)]
  using wf_title_ends[OF assms(2)] header_all_dot[OF assms(2,3)]
  by (intro header_run_head[OF assms(1)]) simp_all

text \<open>One turn of the loop on a well-formed header.\<close>

lemma parse_line_wf_header:
  assumes "is_digit n" "well_formed_title t" "well_formed_description d"
  shows "parse_line (sections, current, orphanedLines) (header_line n t d) =
     (push_current (if orphanedLines \<noteq> [] \<and> current = None then push_orphaned sections orphanedLines else sections) current,
      Some \<lparr>number = [n], title = t, description = d, lines = (if d \<noteq> [] then [d] else []),
            isOrphaned = False\<rparr>,
      (if orphanedLines \<noteq> [] \<and> current = None then [] else orphanedLines))"
  unfolding parse_line_header[OF header_match[OF assms]] header_new_section[OF assms(2,3)] ..

lemma body_foldl:
  "list_all content_line body \<Longrightarrow>
   foldl parse_line (sections, Some cur, orph) body =
     (sections, Some (cur\<lparr>lines := lines cur @ map trimEnd body\<rparr>), orph)"
proof (induction body arbitrary: cur)
  case Nil
  then show ?case by simp
next
  case (Cons l body)
  then have h: "rx_match header_rx (trimEnd l) = None" and rest: "list_all content_line body"
    by (simp_all add: content_line_def[of l])
  have "foldl parse_line (sections, Some cur, orph) (l # body) =
        foldl parse_line (sections, Some (cur\<lparr>lines := lines cur @ [trimEnd l]\<rparr>), orph) body"
    by (simp only: foldl_Cons parse_line_plain[OF h]) simp
  then show ?case using Cons.IH[OF rest] by simp
qed

lemma blocks_foldl:
  "list_all well_formed_block blocks \<Longrightarrow>
   finish (foldl parse_line (sections, Some cur, []) (concat (map block_lines blocks))) =
     sections @ [cur] @ map block_section blocks"
proof (induction blocks arbitrary: sections cur)
  case Nil
  then show ?case by (simp add: push_current_def)
next
  case (Cons b blocks)
  obtain n t d body where b: "b = (n, t, d, body)" by (cases b)
  have wf: "is_digit n" "well_formed_title t" "well_formed_description d" "list_all content_line body"
    and rest: "list_all well_formed_block blocks"
    using Cons.prems b by simp_all
  let ?new = "\<lparr>number = [n], title = t, description = d, lines = (if d \<noteq> [] then [d] else []),
            isOrphaned = False\<rparr>"
  have 1: "parse_line (sections, Some cur, []) (header_line n t d) = (sections @ [cur], Some ?new, [])"
    unfolding parse_line_wf_header[OF wf(1,2,3)] by (simp add: push_current_def)
  have 2: "foldl parse_line (sections @ [cur], Some ?new, []) body =
           (sections @ [cur], Some (block_section b), [])"
    unfolding body_foldl[OF wf(4)] b by simp
  have "foldl parse_line (sections, Some cur, []) (concat (map block_lines (b # blocks))) =
        foldl parse_line (sections @ [cur], Some (block_section b), []) (concat (map block_lines blocks))"
    using 1 2 unfolding b by (simp del: parse_line.simps block_section.simps)
  then show ?case using Cons.IH[OF rest, of "sections @ [cur]" "block_section b"] by simp
qed

lemma preamble_foldl:
  assumes "list_all (\<lambda>l. content_line l \<and> (trim l = [] \<or> isIntroPhrase l)) pre"
  shows "\<exists>orph. foldl parse_line ([], None, []) pre = ([], None, orph) \<and> meaningfulLines orph = []"
proof -
  have h: "\<forall>l \<in> set pre. rx_match header_rx (trimEnd l) = None"
    using assms by (auto simp: list_all_iff content_line_def)
  have "filter (\<lambda>l. trim l \<noteq> [] \<and> \<not> isIntroPhrase l) pre = []"
    using assms by (auto simp: list_all_iff filter_empty_conv)
  then have "meaningfulLines (filter (\<lambda>l. trim l \<noteq> []) (map trimEnd pre)) = []"
    by (simp add: meaningful_trimEnd)
  then show ?thesis using no_header_foldl[OF h, of "[]"] by simp
qed

lemma split_on_join:
  "ls \<noteq> [] \<Longrightarrow> \<forall>l \<in> set ls. sep \<notin> set l \<Longrightarrow> split_on sep (join [sep] ls) = ls"
proof (induction "[sep]" ls rule: join.induct)
  case 1
  then show ?case by simp
next
  case (2 x)
  then show ?case by (simp add: split_on_no_sep)
next
  case (3 x y ys)
  then have "split_on sep (join [sep] (y # ys)) = y # ys" by simp
  then show ?case using 3 split_on_append[of sep x "join [sep] (y # ys)"] by simp
qed

lemma header_no_newline:
  "is_digit n \<Longrightarrow> well_formed_title t \<Longrightarrow> well_formed_description d \<Longrightarrow> 10 \<notin> set (header_line n t d)"
  by (auto simp: header_line_def js_def is_digit_def well_formed_title_def well_formed_description_def
      list_all_iff is_dot_def is_line_terminator_def)

lemma block_no_newline: "well_formed_block b \<Longrightarrow> \<forall>l \<in> set (block_lines b). 10 \<notin> set l"
proof (cases b)
  case (fields n t d body)
  assume "well_formed_block b"
  then show ?thesis unfolding fields
    using header_no_newline[of n t d] by (auto simp: list_all_iff content_line_def)
qed
lemma parsePlanText_finish:
  "parsePlanText planText = finish (foldl parse_line ([], None, []) (split_on 10 planText))"
  by (cases "foldl parse_line ([], None, []) (split_on 10 planText)") (simp add: parsePlanText_def)

lemma first_block_foldl:
  assumes "well_formed_block b" "meaningfulLines orph = []"
  shows "foldl parse_line ([], None, orph) (block_lines b) = ([], Some (block_section b), [])"
proof -
  obtain n t d body where b: "b = (n, t, d, body)" by (cases b)
  have wf: "is_digit n" "well_formed_title t" "well_formed_description d" "list_all content_line body"
    using assms(1) b by simp_all
  let ?new = "\<lparr>number = [n], title = t, description = d, lines = (if d \<noteq> [] then [d] else []),
            isOrphaned = False\<rparr>"
  have 1: "parse_line ([], None, orph) (header_line n t d) = ([], Some ?new, [])"
    unfolding parse_line_wf_header[OF wf(1,2,3)]
    using assms(2) by (simp add: push_current_def push_orphaned_def)
  have 2: "foldl parse_line ([], Some ?new, []) body = ([], Some (block_section b), [])"
    unfolding body_foldl[OF wf(4)] b by simp
  show ?thesis using 1 2 unfolding b by (simp del: parse_line.simps block_section.simps)
qed

lemma blocks_parse:
  assumes "list_all well_formed_block blocks" "blocks \<noteq> []"
    and "list_all (\<lambda>l. content_line l \<and> (trim l = [] \<or> isIntroPhrase l)) pre"
  shows "parsePlanText (join [10] (pre @ concat (map block_lines blocks))) = map block_section blocks"
proof -
  let ?ls = "pre @ concat (map block_lines blocks)"
  obtain b bs where bl: "blocks = b # bs" using assms(2) by (cases blocks) auto
  have wfb: "well_formed_block b" and wfbs: "list_all well_formed_block bs"
    using assms(1) bl by simp_all
  have ne: "?ls \<noteq> []" unfolding bl by (cases b) simp
  have "\<forall>l \<in> set pre. 10 \<notin> set l" using assms(3) by (auto simp: list_all_iff content_line_def)
  moreover have "\<forall>l \<in> set (concat (map block_lines blocks)). 10 \<notin> set l"
  proof
    fix l assume "l \<in> set (concat (map block_lines blocks))"
    then obtain x where x: "x \<in> set blocks" "l \<in> set (block_lines x)" by auto
    then have "well_formed_block x" using assms(1) by (simp add: list_all_iff)
    then show "10 \<notin> set l" using block_no_newline x(2) by blast
  qed
  ultimately have nl: "\<forall>l \<in> set ?ls. 10 \<notin> set l" by auto
  have sp: "split_on 10 (join [10] ?ls) = ?ls" by (rule split_on_join[OF ne nl])
  obtain orph where o: "foldl parse_line ([], None, []) pre = ([], None, orph)" "meaningfulLines orph = []"
    using preamble_foldl[OF assms(3)] by blast
  have "foldl parse_line ([], None, []) ?ls =
        foldl parse_line ([], Some (block_section b), []) (concat (map block_lines bs))"
    unfolding bl using o(1) first_block_foldl[OF wfb o(2)] by simp
  then have "finish (foldl parse_line ([], None, []) ?ls) = [] @ [block_section b] @ map block_section bs"
    using blocks_foldl[OF wfbs, of "[]" "block_section b"] by simp
  then have fin: "finish (foldl parse_line ([], None, []) ?ls) = map block_section blocks"
    unfolding bl by simp
  show ?thesis unfolding parsePlanText_finish sp by (rule fin)
qed

text \<open>
  C1 (as amended): when the lines of the input that match the header pattern are exactly
  eight well-formed headers \<^verbatim>\<open>"1. A: x"\<close> to \<^verbatim>\<open>"8. H: y"\<close>, in this order, and the lines before
  the first of them are blank or intro phrases, \<^verbatim>\<open>parsePlanText\<close> returns exactly eight sections
  with the numbers 1 to 8 in this order; the title of each is the text of its header before
  the first colon, its description the text after that colon, and its lines are the
  description (when not empty) followed by the lines under the header, without their trailing
  white space.
\<close>

theorem eight_headers:
  assumes "list_all well_formed_block blocks"
    and "map fst blocks = js ''12345678''"
    and "list_all (\<lambda>l. content_line l \<and> (trim l = [] \<or> isIntroPhrase l)) pre"
  shows "parsePlanText (join [10] (pre @ concat (map block_lines blocks))) = map block_section blocks \<and>
    length (parsePlanText (join [10] (pre @ concat (map block_lines blocks)))) = 8 \<and>
    map number (parsePlanText (join [10] (pre @ concat (map block_lines blocks)))) =
      [js ''1'', js ''2'', js ''3'', js ''4'', js ''5'', js ''6'', js ''7'', js ''8'']"
proof -
  have len: "length blocks = 8"
    using arg_cong[OF assms(2), of length] by (simp add: js_def)
  then have ne: "blocks \<noteq> []" by auto
  have p: "parsePlanText (join [10] (pre @ concat (map block_lines blocks))) = map block_section blocks"
    by (rule blocks_parse[OF assms(1) ne assms(3)])
  have n: "number (block_section b) = [fst b]" for b by (cases b) simp
  have "map number (map block_section blocks) = map (\<lambda>c. [c]) (map fst blocks)"
    by (simp add: n)
  then have "map number (map block_section blocks) =
      [js ''1'', js ''2'', js ''3'', js ''4'', js ''5'', js ''6'', js ''7'', js ''8'']"
    unfolding assms(2) by (simp add: js_def)
  then show ?thesis using p len by simp
qed

theorem eight_headers_witness:
  "list_all well_formed_block
     [(49, js ''A'', js ''x'', []),
      (50, js ''B'', js ''x'', [js ''  more text  '']),
      (51, js ''C'', js ''x'', []),
      (52, js ''D'', js ''x'', []),
      (53, js ''E'', js ''x'', []),
      (54, js ''F'', js ''x'', []),
      (55, js ''G'', js ''x'', []),
      (56, js ''H'', js ''y'', [])] \<and>
   map fst
     [(49, js ''A'', js ''x'', []),
      (50, js ''B'', js ''x'', [js ''  more text  '']),
      (51, js ''C'', js ''x'', []),
      (52, js ''D'', js ''x'', []),
      (53, js ''E'', js ''x'', []),
      (54, js ''F'', js ''x'', []),
      (55, js ''G'', js ''x'', []),
      (56, js ''H'', js ''y'', [])] = js ''12345678'' \<and>
   list_all (\<lambda>l. content_line l \<and> (trim l = [] \<or> isIntroPhrase l)) [js ''Your plan:''] \<and>
   parsePlanText (js ''Your plan:\<newline>1. A: x\<newline>2. B: x\<newline>  more text  \<newline>3. C: x\<newline>4. D: x\<newline>5. E: x\<newline>6. F: x\<newline>7. G: x\<newline>8. H: y'') =
      [\<lparr>number = js ''1'', title = js ''A'', description = js ''x'', lines = [js ''x''],
        isOrphaned = False\<rparr>,
       \<lparr>number = js ''2'', title = js ''B'', description = js ''x'', lines = [js ''x'', js ''  more text''],
        isOrphaned = False\<rparr>,
       \<lparr>number = js ''3'', title = js ''C'', description = js ''x'', lines = [js ''x''],
        isOrphaned = False\<rparr>,
       \<lparr>number = js ''4'', title = js ''D'', description = js ''x'', lines = [js ''x''],
        isOrphaned = False\<rparr>,
       \<lparr>number = js ''5'', title = js ''E'', description = js ''x'', lines = [js ''x''],
        isOrphaned = False\<rparr>,
       \<lparr>number = js ''6'', title = js ''F'', description = js ''x'', lines = [js ''x''],
        isOrphaned = False\<rparr>,
       \<lparr>number = js ''7'', title = js ''G'', description = js ''x'', lines = [js ''x''],
        isOrphaned = False\<rparr>,
       \<lparr>number = js ''8'', title = js ''H'', description = js ''y'', lines = [js ''y''],
        isOrphaned = False\<rparr>] \<and>
   length (parsePlanText (js ''Your plan:\<newline>1. A: x\<newline>2. B: x\<newline>  more text  \<newline>3. C: x\<newline>4. D: x\<newline>5. E: x\<newline>6. F: x\<newline>7. G: x\<newline>8. H: y'')) = 8"
proof -
  let ?blocks = "[(49, js ''A'', js ''x'', []),
      (50, js ''B'', js ''x'', [js ''  more text  '']),
      (51, js ''C'', js ''x'', []),
      (52, js ''D'', js ''x'', []),
      (53, js ''E'', js ''x'', []),
      (54, js ''F'', js ''x'', []),
      (55, js ''G'', js ''x'', []),
      (56, js ''H'', js ''y'', [])]"
  have w: "list_all well_formed_block ?blocks"
    by (simp add: eval_defs well_formed_title_def well_formed_description_def content_line_def header_rx_def)
  have n: "map fst ?blocks = js ''12345678''"
    by (simp add: js_def)
  have p: "list_all (\<lambda>l. content_line l \<and> (trim l = [] \<or> isIntroPhrase l)) [js ''Your plan:'']"
    by (simp add: eval_defs content_line_def header_rx_def isIntroPhrase_def INTRO_PHRASE_PATTERNS_def)
  have t: "join [10] ([js ''Your plan:''] @ concat (map block_lines ?blocks)) =
           js ''Your plan:\<newline>1. A: x\<newline>2. B: x\<newline>  more text  \<newline>3. C: x\<newline>4. D: x\<newline>5. E: x\<newline>6. F: x\<newline>7. G: x\<newline>8. H: y''"
    by (simp add: js_def header_line_def)
  have s: "map block_section ?blocks =
      [\<lparr>number = js ''1'', title = js ''A'', description = js ''x'', lines = [js ''x''],
        isOrphaned = False\<rparr>,
       \<lparr>number = js ''2'', title = js ''B'', description = js ''x'', lines = [js ''x'', js ''  more text''],
        isOrphaned = False\<rparr>,
       \<lparr>number = js ''3'', title = js ''C'', description = js ''x'', lines = [js ''x''],
        isOrphaned = False\<rparr>,
       \<lparr>number = js ''4'', title = js ''D'', description = js ''x'', lines = [js ''x''],
        isOrphaned = False\<rparr>,
       \<lparr>number = js ''5'', title = js ''E'', description = js ''x'', lines = [js ''x''],
        isOrphaned = False\<rparr>,
       \<lparr>number = js ''6'', title = js ''F'', description = js ''x'', lines = [js ''x''],
        isOrphaned = False\<rparr>,
       \<lparr>number = js ''7'', title = js ''G'', description = js ''x'', lines = [js ''x''],
        isOrphaned = False\<rparr>,
       \<lparr>number = js ''8'', title = js ''H'', description = js ''y'', lines = [js ''y''],
        isOrphaned = False\<rparr>]"
    by (simp add: eval_defs)
  show ?thesis
    using eight_headers[OF w n p] w n p unfolding t s by simp
qed

text \<open>
  An input that contains the eight headers, a line of other text before them and a numbered
  line under the fourth gives ten sections: the orphaned section comes first, and the
  numbered line starts a section of its own.
\<close>

theorem extra_lines_counterexample:
  "parsePlanText (js ''Note from the clinic\<newline>1. A: x\<newline>2. B: x\<newline>3. C: x\<newline>4. D: x\<newline>1. Stretch daily\<newline>5. E: x\<newline>6. F: x\<newline>7. G: x\<newline>8. H: y'') =
      [\<lparr>number = js ''0'', title = js ''Additional Notes'', description = [],
        lines = [js ''Note from the clinic''], isOrphaned = True\<rparr>,
       \<lparr>number = js ''1'', title = js ''A'', description = js ''x'', lines = [js ''x''],
        isOrphaned = False\<rparr>,
       \<lparr>number = js ''2'', title = js ''B'', description = js ''x'', lines = [js ''x''],
        isOrphaned = False\<rparr>,
       \<lparr>number = js ''3'', title = js ''C'', description = js ''x'', lines = [js ''x''],
        isOrphaned = False\<rparr>,
       \<lparr>number = js ''4'', title = js ''D'', description = js ''x'', lines = [js ''x''],
        isOrphaned = False\<rparr>,
       \<lparr>number = js ''1'', title = js ''Stretch daily'', description = [], lines = [],
        isOrphaned = False\<rparr>,
       \<lparr>number = js ''5'', title = js ''E'', description = js ''x'', lines = [js ''x''],
        isOrphaned = False\<rparr>,
       \<lparr>number = js ''6'', title = js ''F'', description = js ''x'', lines = [js ''x''],
        isOrphaned = False\<rparr>,
       \<lparr>number = js ''7'', title = js ''G'', description = js ''x'', lines = [js ''x''],
        isOrphaned = False\<rparr>,
       \<lparr>number = js ''8'', title = js ''H'', description = js ''y'', lines = [js ''y''],
        isOrphaned = False\<rparr>]"
  by (simp add: eval_defs parse_defs)

end
